theory Spec2Isabelle
  imports Complex_Main "HOL-Library.Sublist"
begin

section \<open>Conventions of the embedding\<close>

text \<open>
  The program is a TypeScript/React application. Its numbers are IEEE doubles; they are
  modelled here as the reals they approximate (type \<^typ>\<open>real\<close>), so every statement
  about a coordinate, a ratio or a zoom factor is a statement about exact arithmetic.
  Rounding, overflow to infinity and NaN are outside this model; wherever the source
  divides, the model says so and the theorems state what they need of the divisor.

  React state (\<open>useState\<close>) and refs (\<open>useRef\<close>) become fields of a record that each
  handler takes and returns. JavaScript strings are lists of \<^typ>\<open>char\<close>, one per
  code unit below 256 (Latin-1), which covers every literal the modelled code compares.
\<close>

section \<open>Nearest aspect ratio (\<open>services/geminiService.ts\<close>)\<close>

record ratio_entry =
  key :: string
  val :: real

text \<open>The array literal of \<open>getClosestAspectRatio\<close>, in source order.\<close>

definition ratios :: "ratio_entry list" where
  "ratios =
    [\<lparr>key = ''1:1'', val = 1\<rparr>,
     \<lparr>key = ''3:4'', val = 75 / 100\<rparr>,
     \<lparr>key = ''4:3'', val = 133 / 100\<rparr>,
     \<lparr>key = ''9:16'', val = 5625 / 10000\<rparr>,
     \<lparr>key = ''16:9'', val = 177 / 100\<rparr>]"

text \<open>
  \<open>Array.prototype.reduce\<close> without an initial value: the first element seeds the
  accumulator; on an empty array JavaScript throws a TypeError, which is \<open>None\<close> here.
\<close>

fun reduce_js :: "('a \<Rightarrow> 'a \<Rightarrow> 'a) \<Rightarrow> 'a list \<Rightarrow> 'a option" where
  "reduce_js f [] = None"
| "reduce_js f (x # xs) = Some (foldl f x xs)"

text \<open>The reducer's callback: \<open>curr\<close> replaces \<open>prev\<close> only when strictly closer.\<close>

definition closer :: "real \<Rightarrow> ratio_entry \<Rightarrow> ratio_entry \<Rightarrow> ratio_entry" where
  "closer ratio prv cur =
     (if \<bar>val cur - ratio\<bar> < \<bar>val prv - ratio\<bar> then cur else prv)"

definition getClosestAspectRatio :: "real \<Rightarrow> string option" where
  "getClosestAspectRatio ratio = map_option key (reduce_js (closer ratio) ratios)"

section \<open>Data model (\<open>types.ts\<close>)\<close>

datatype ToolType = Select | Eraser | Move | Hand | Decor

datatype LayerKind = ImageLayer | GenerationLayer | VideoLayer

datatype RenderMode = Cover | Fill

text \<open>An object \<open>{ x, y }\<close>.\<close>

record point =
  px :: real
  py :: real

record Resolution =
  res_w :: real
  res_h :: real
  res_ratio :: real
  res_label :: "string option"

record decor_data =
  decor_points :: "point list"
  decor_label :: string
  decor_color :: string
  decor_fontSize :: real

text \<open>Interface \<open>Layer\<close>; an optional field is an \<open>option\<close>.\<close>

record Layer =
  layer_id :: string
  layer_name :: string
  visible :: bool
  locked :: bool
  layer_type :: LayerKind
  src :: "string option"
  thumbnail :: "string option"
  layer_x :: real
  layer_y :: real
  width :: real
  height :: real
  initialX :: "real option"
  initialY :: "real option"
  initialWidth :: "real option"
  initialHeight :: "real option"
  feather :: "real option"
  renderMode :: "RenderMode option"
  isPlaying :: "bool option"
  decorData :: "decor_data option"

text \<open>The selection rectangle \<open>{ x, y, w, h }\<close>, in world units.\<close>

record selection_rect =
  sel_x :: real
  sel_y :: real
  sel_w :: real
  sel_h :: real

text \<open>What the handlers read of \<open>canvasRef.current.getBoundingClientRect()\<close>.\<close>

record dom_rect =
  rect_left :: real
  rect_top :: real

datatype axis = Horizontal | Vertical

section \<open>The canvas state (\<open>useCanvasInteraction\<close>, \<open>useCanvasLayers\<close>)\<close>

text \<open>
  One record holds what the two hooks keep and share: the \<open>useState\<close> cells and refs
  of \<open>useCanvasInteraction\<close>, its props, and the cells of \<open>useCanvasLayers\<close> that it
  writes through \<open>setLayers\<close>, \<open>setSelectedLayerIds\<close> and \<open>setRedoStack\<close>.
  \<open>canvasRef\<close> is \<open>None\<close> while the element is not mounted, else its bounding rectangle.
\<close>

record canvas_state =
  selection :: "selection_rect option"
  isDragging :: bool
  dragStart :: "point option"
  draggingLayerId :: "string option"
  layerDragOffset :: "point option"
  zoom :: real
  canvasOffset :: point
  canvasRef :: "dom_rect option"
  isMiddlePanning :: bool
  dragStartRef :: "point option"
  isDraggingRef :: bool
  isDraggingLayerRef :: bool
  isDraggingSelectionRef :: bool
  selectionDragStartRef :: "point option"
  initialSelectionPosRef :: "point option"
  dragAxisRef :: "axis option"
  lastTouchDist :: "real option"
  lastTouchCenter :: "point option"
  selectedTool :: ToolType
  layers :: "Layer list"
  availableResolutions :: "Resolution list"
  isGenerating :: bool
  showLayerMenuMobile :: bool
  selectedLayerIds :: "string list"
  redoStack :: "Layer list"

section \<open>Pointer handlers (\<open>useCanvasInteraction\<close>)\<close>

text \<open>
  A quotient whose divisor is zero is \<open>Infinity\<close> or \<open>NaN\<close> in JavaScript and no real
  number: a handler that reaches such a division returns \<open>None\<close>. Where the source
  guards the divisor first, the model divides directly.
\<close>

definition toWorld :: "canvas_state \<Rightarrow> dom_rect \<Rightarrow> real \<Rightarrow> real \<Rightarrow> point" where
  "toWorld s rect clientX clientY =
     \<lparr>px = (clientX - rect_left rect - px (canvasOffset s)) / zoom s,
      py = (clientY - rect_top rect - py (canvasOffset s)) / zoom s\<rparr>"

text \<open>The predicate of the \<open>find\<close> calls of the move and eraser tools.\<close>

definition layerHit :: "real \<Rightarrow> real \<Rightarrow> Layer \<Rightarrow> bool" where
  "layerHit x y l \<longleftrightarrow>
     x \<ge> layer_x l \<and> x \<le> layer_x l + width l \<and>
     y \<ge> layer_y l \<and> y \<le> layer_y l + height l \<and>
     visible l \<and> \<not> locked l"

text \<open>\<open>[...layersRef.current].reverse().find(...)\<close>; \<open>undefined\<close> is \<open>None\<close>.\<close>

definition clickedLayer :: "real \<Rightarrow> real \<Rightarrow> Layer list \<Rightarrow> Layer option" where
  "clickedLayer x y ls = find (layerHit x y) (rev ls)"

definition insideSelection :: "real \<Rightarrow> real \<Rightarrow> selection_rect \<Rightarrow> bool" where
  "insideSelection x y sel \<longleftrightarrow>
     x \<ge> sel_x sel \<and> x \<le> sel_x sel + sel_w sel \<and>
     y \<ge> sel_y sel \<and> y \<le> sel_y sel + sel_h sel"

text \<open>The branches of \<open>handleStart\<close> after the world point \<open>(x, y)\<close> is known.\<close>

definition startSelect :: "real \<Rightarrow> real \<Rightarrow> canvas_state \<Rightarrow> canvas_state" where
  "startSelect x y s =
     (let fresh = s\<lparr>isDraggingRef := True, isDragging := True,
                      dragStartRef := Some \<lparr>px = x, py = y\<rparr>,
                      dragStart := Some \<lparr>px = x, py = y\<rparr>,
                      selection := None\<rparr>
      in case selection s of
           None \<Rightarrow> fresh
         | Some sel \<Rightarrow>
             if insideSelection x y sel
             then s\<lparr>isDraggingSelectionRef := True,
                    selectionDragStartRef := Some \<lparr>px = x, py = y\<rparr>,
                    initialSelectionPosRef := Some \<lparr>px = sel_x sel, py = sel_y sel\<rparr>,
                    dragAxisRef := None\<rparr>
             else fresh)"

definition startMove :: "real \<Rightarrow> real \<Rightarrow> canvas_state \<Rightarrow> canvas_state" where
  "startMove x y s =
     (case clickedLayer x y (layers s) of
        None \<Rightarrow> s
      | Some l \<Rightarrow>
          s\<lparr>isDraggingLayerRef := True,
            draggingLayerId := Some (layer_id l),
            selectedLayerIds := [layer_id l],
            layerDragOffset := Some \<lparr>px = x - layer_x l, py = y - layer_y l\<rparr>\<rparr>)"

definition startEraser :: "real \<Rightarrow> real \<Rightarrow> canvas_state \<Rightarrow> canvas_state" where
  "startEraser x y s =
     (case clickedLayer x y (layers s) of
        None \<Rightarrow> s
      | Some l \<Rightarrow>
          s\<lparr>layers := filter (\<lambda>k. layer_id k \<noteq> layer_id l) (layers s),
            redoStack := []\<rparr>)"

text \<open>
  \<open>handleStart(clientX, clientY, button)\<close>. The division by \<open>zoom\<close> comes after the
  return on \<open>zoom <= 0.001\<close>.
\<close>

definition handleStart :: "real \<Rightarrow> real \<Rightarrow> int \<Rightarrow> canvas_state \<Rightarrow> canvas_state" where
  "handleStart clientX clientY button s =
     (case canvasRef s of
        None \<Rightarrow> s
      | Some rect \<Rightarrow>
          if zoom s \<le> 1 / 1000 then s
          else if isGenerating s then s
          else
            let s0 = (if showLayerMenuMobile s then s\<lparr>showLayerMenuMobile := False\<rparr> else s)
            in if button = 1
               then s0\<lparr>isMiddlePanning := True, isDraggingRef := True, isDragging := True,
                       dragStartRef := Some \<lparr>px = clientX, py = clientY\<rparr>,
                       dragStart := Some \<lparr>px = clientX, py = clientY\<rparr>\<rparr>
               else
                 let w = toWorld s rect clientX clientY
                 in case selectedTool s of
                      Select \<Rightarrow> startSelect (px w) (py w) s0
                    | Hand \<Rightarrow>
                        s0\<lparr>isDraggingRef := True, isDragging := True,
                           dragStartRef := Some \<lparr>px = clientX, py = clientY\<rparr>,
                           dragStart := Some \<lparr>px = clientX, py = clientY\<rparr>\<rparr>
                    | Move \<Rightarrow> startMove (px w) (py w) s0
                    | Eraser \<Rightarrow> startEraser (px w) (py w) s0
                    | Decor \<Rightarrow> s0)"

text \<open>
  The guard of the layer-drag branch of \<open>handleMove\<close>, with the values it found. A
  string is truthy when it is not empty.
\<close>

definition layerDragGuard :: "canvas_state \<Rightarrow> (string \<times> point \<times> dom_rect) option" where
  "layerDragGuard s =
     (if selectedTool s = Move \<and> isDraggingLayerRef s
      then case draggingLayerId s of
             None \<Rightarrow> None
           | Some lid \<Rightarrow>
               if lid = [] then None
               else case layerDragOffset s of
                      None \<Rightarrow> None
                    | Some off \<Rightarrow> map_option (\<lambda>rect. (lid, off, rect)) (canvasRef s)
      else None)"

text \<open>The guard of the selection-drag branch, with the values it found.\<close>

definition selectionDragGuard ::
  "canvas_state \<Rightarrow> (point \<times> point \<times> selection_rect \<times> dom_rect) option" where
  "selectionDragGuard s =
     (if isDraggingSelectionRef s
      then case selectionDragStartRef s of
             None \<Rightarrow> None
           | Some start \<Rightarrow>
               case initialSelectionPosRef s of
                 None \<Rightarrow> None
               | Some init \<Rightarrow>
                   case selection s of
                     None \<Rightarrow> None
                   | Some sel \<Rightarrow> map_option (\<lambda>rect. (start, init, sel, rect)) (canvasRef s)
      else None)"

text \<open>Layer dragging: the dragged layer follows the pointer, less the stored offset.\<close>

definition moveLayerDrag ::
  "real \<Rightarrow> real \<Rightarrow> string \<Rightarrow> point \<Rightarrow> dom_rect \<Rightarrow> canvas_state \<Rightarrow> canvas_state option" where
  "moveLayerDrag clientX clientY lid off rect s =
     (if zoom s = 0 then None
      else
        let cur = toWorld s rect clientX clientY;
            newX = px cur - px off;
            newY = py cur - py off
        in Some (s\<lparr>layers :=
                   map (\<lambda>l. if layer_id l = lid then l\<lparr>layer_x := newX, layer_y := newY\<rparr> else l)
                       (layers s)\<rparr>))"

text \<open>
  Selection dragging on a restricted axis. \<open>dx\<close> and \<open>dy\<close> are differences of world
  coordinates; the threshold 5 is compared with them.
\<close>

definition moveSelectionDrag ::
  "real \<Rightarrow> real \<Rightarrow> point \<Rightarrow> point \<Rightarrow> dom_rect \<Rightarrow> canvas_state \<Rightarrow> canvas_state option" where
  "moveSelectionDrag clientX clientY start init rect s =
     (if zoom s = 0 then None
      else
        let cur = toWorld s rect clientX clientY;
            dx = px cur - px start;
            dy = py cur - py start;
            threshold = 5;
            ax = (case dragAxisRef s of
                    Some a \<Rightarrow> Some a
                  | None \<Rightarrow>
                      if \<bar>dx\<bar> > threshold \<or> \<bar>dy\<bar> > threshold
                      then Some (if \<bar>dx\<bar> > \<bar>dy\<bar> then Horizontal else Vertical)
                      else None)
        in case ax of
             None \<Rightarrow> Some s
           | Some a \<Rightarrow>
               let newX = (if a = Horizontal then px init + dx else px init);
                   newY = (if a = Horizontal then py init else py init + dy)
               in Some (s\<lparr>dragAxisRef := Some a,
                          selection :=
                            map_option (\<lambda>prev. prev\<lparr>sel_x := newX, sel_y := newY\<rparr>)
                              (selection s)\<rparr>))"

text \<open>\<open>Number.MAX_VALUE\<close>, the largest finite double.\<close>

definition MAX_VALUE :: real where
  "MAX_VALUE = (2 - 1 / 2 ^ 52) * 2 ^ 1023"

definition defaultResolution :: Resolution where
  "defaultResolution = \<lparr>res_w = 1024, res_h = 1024, res_ratio = 1, res_label = None\<rparr>"

text \<open>The candidate list: the prop when it has an element, else the default entry.\<close>

definition resolutionsOf :: "Resolution list \<Rightarrow> Resolution list" where
  "resolutionsOf avail = (if length avail > 0 then avail else [defaultResolution])"

text \<open>One round of the \<open>for (const res of resolutions)\<close> loop on \<open>(bestRes, minDiff)\<close>.\<close>

definition bestStep :: "real \<Rightarrow> Resolution \<times> real \<Rightarrow> Resolution \<Rightarrow> Resolution \<times> real" where
  "bestStep currentRatio acc res =
     (let diff = \<bar>res_ratio res - currentRatio\<bar>
      in if diff < snd acc then (res, diff) else acc)"

text \<open>
  \<open>bestRes\<close> after the loop. It starts as \<open>resolutions[0]\<close>; the list is never empty
  where this is called, the empty case is written out only because HOL wants it.
\<close>

definition bestRes :: "Resolution list \<Rightarrow> real \<Rightarrow> Resolution" where
  "bestRes resolutions currentRatio =
     (case resolutions of
        [] \<Rightarrow> defaultResolution
      | r0 # _ \<Rightarrow> fst (foldl (bestStep currentRatio) (r0, MAX_VALUE) resolutions))"

definition currentRatioOf :: "real \<Rightarrow> real \<Rightarrow> real" where
  "currentRatioOf rawW rawH = (if rawH = 0 then 1 else rawW / rawH)"

text \<open>
  \<open>(newW, newH)\<close> from the raw extent and the matched entry; \<open>None\<close> when the
  quotient \<open>newW / bestRes.ratio\<close> has a zero divisor.
\<close>

definition snapSize :: "real \<Rightarrow> real \<Rightarrow> real \<Rightarrow> Resolution \<Rightarrow> (real \<times> real) option" where
  "snapSize rawW rawH currentRatio best =
     (if currentRatio > res_ratio best then Some (rawH * res_ratio best, rawH)
      else if res_ratio best = 0 then None
      else Some (rawW, rawW / res_ratio best))"

text \<open>The select branch of \<open>handleMove\<close>: a new selection from the anchor \<open>start\<close>.\<close>

definition moveSelect ::
  "real \<Rightarrow> real \<Rightarrow> point \<Rightarrow> dom_rect \<Rightarrow> canvas_state \<Rightarrow> canvas_state option" where
  "moveSelect clientX clientY start rect s =
     (if zoom s = 0 then None
      else
        let cur = toWorld s rect clientX clientY;
            startX = px start;
            startY = py start;
            rawW = \<bar>px cur - startX\<bar>;
            rawH = \<bar>py cur - startY\<bar>;
            resolutions = resolutionsOf (availableResolutions s);
            currentRatio = currentRatioOf rawW rawH;
            best = bestRes resolutions currentRatio
        in case snapSize rawW rawH currentRatio best of
             None \<Rightarrow> None
           | Some (newW, newH) \<Rightarrow>
               let isLeft = px cur < startX;
                   isUp = py cur < startY;
                   finalX = (if isLeft then startX - newW else startX);
                   finalY = (if isUp then startY - newH else startY)
               in Some (s\<lparr>selection :=
                            Some \<lparr>sel_x = finalX, sel_y = finalY, sel_w = newW, sel_h = newH\<rparr>\<rparr>))"

text \<open>\<open>handleMove(clientX, clientY)\<close>: the first branch whose guard holds runs.\<close>

definition handleMove :: "real \<Rightarrow> real \<Rightarrow> canvas_state \<Rightarrow> canvas_state option" where
  "handleMove clientX clientY s =
     (case layerDragGuard s of
        Some (lid, off, rect) \<Rightarrow> moveLayerDrag clientX clientY lid off rect s
      | None \<Rightarrow>
          case selectionDragGuard s of
            Some (start, init, sel, rect) \<Rightarrow> moveSelectionDrag clientX clientY start init rect s
          | None \<Rightarrow>
              case dragStartRef s of
                None \<Rightarrow> Some s
              | Some ds \<Rightarrow>
                  if \<not> isDraggingRef s then Some s
                  else if isMiddlePanning s \<or> selectedTool s = Hand
                  then
                    let dx = clientX - px ds;
                        dy = clientY - py ds
                    in Some (s\<lparr>canvasOffset :=
                                 \<lparr>px = px (canvasOffset s) + dx, py = py (canvasOffset s) + dy\<rparr>,
                               dragStartRef := Some \<lparr>px = clientX, py = clientY\<rparr>\<rparr>)
                  else if selectedTool s = Select
                  then case canvasRef s of
                         None \<Rightarrow> Some s
                       | Some rect \<Rightarrow> moveSelect clientX clientY ds rect s
                  else Some s)"

text \<open>The updater of \<open>setSelection\<close> in \<open>handleEnd\<close>.\<close>

definition commitSelection :: "selection_rect option \<Rightarrow> selection_rect option" where
  "commitSelection prev =
     (case prev of
        None \<Rightarrow> None
      | Some r \<Rightarrow> if sel_w r < 10 \<or> sel_h r < 10 then None else Some r)"

definition handleEnd :: "canvas_state \<Rightarrow> canvas_state" where
  "handleEnd s =
     (let s0 = (if selectedTool s = Select
                then s\<lparr>selection := commitSelection (selection s)\<rparr> else s)
      in s0\<lparr>isMiddlePanning := False, isDraggingRef := False, isDraggingLayerRef := False,
             isDragging := False, draggingLayerId := None, layerDragOffset := None,
             dragStart := None, dragStartRef := None,
             lastTouchDist := None, lastTouchCenter := None,
             isDraggingSelectionRef := False, selectionDragStartRef := None,
             initialSelectionPosRef := None, dragAxisRef := None\<rparr>)"

section \<open>Touch and wheel handlers\<close>

text \<open>The two helpers read \<open>touches[0]\<close> and \<open>touches[1]\<close>.\<close>

definition getTouchDistance :: "point \<Rightarrow> point \<Rightarrow> real" where
  "getTouchDistance t0 t1 =
     (let dx = px t0 - px t1; dy = py t0 - py t1 in sqrt (dx * dx + dy * dy))"

definition getTouchCenter :: "point \<Rightarrow> point \<Rightarrow> point" where
  "getTouchCenter t0 t1 = \<lparr>px = (px t0 + px t1) / 2, py = (py t0 + py t1) / 2\<rparr>"

text \<open>\<open>Math.min(Math.max(0.05, z), 5)\<close>.\<close>

definition clampZoom :: "real \<Rightarrow> real" where
  "clampZoom z = min (max (5 / 100) z) 5"

definition handleTouchStart :: "point list \<Rightarrow> canvas_state \<Rightarrow> canvas_state" where
  "handleTouchStart touches s =
     (case touches of
        [t0] \<Rightarrow> handleStart (px t0) (py t0) 0 s
      | [t0, t1] \<Rightarrow>
          s\<lparr>isDraggingRef := False, isDragging := False, dragStart := None,
            dragStartRef := None,
            lastTouchDist := Some (getTouchDistance t0 t1),
            lastTouchCenter := Some (getTouchCenter t0 t1)\<rparr>
      | _ \<Rightarrow> s)"

text \<open>
  The pinch step of \<open>handleTouchMove\<close>, reached with two touches, a truthy
  \<open>lastTouchDist\<close> (a number other than 0), a \<open>lastTouchCenter\<close> and a mounted canvas.
\<close>

definition pinchStep ::
  "point \<Rightarrow> point \<Rightarrow> real \<Rightarrow> point \<Rightarrow> dom_rect \<Rightarrow> canvas_state \<Rightarrow> canvas_state option" where
  "pinchStep t0 t1 lastDist lastCenter rect s =
     (let currentDist = getTouchDistance t0 t1;
          currentCenter = getTouchCenter t0 t1;
          scale = currentDist / lastDist;
          newZoom = clampZoom (zoom s * scale)
      in if zoom s = 0 then None
         else
           let centerX = px lastCenter - rect_left rect;
               centerY = py lastCenter - rect_top rect;
               worldX = (centerX - px (canvasOffset s)) / zoom s;
               worldY = (centerY - py (canvasOffset s)) / zoom s;
               newOffsetX = px currentCenter - rect_left rect - worldX * newZoom;
               newOffsetY = py currentCenter - rect_top rect - worldY * newZoom
           in Some (s\<lparr>zoom := newZoom,
                      canvasOffset := \<lparr>px = newOffsetX, py = newOffsetY\<rparr>,
                      lastTouchDist := Some currentDist,
                      lastTouchCenter := Some currentCenter\<rparr>))"

definition handleTouchMove :: "point list \<Rightarrow> canvas_state \<Rightarrow> canvas_state option" where
  "handleTouchMove touches s =
     (case touches of
        [t0] \<Rightarrow> handleMove (px t0) (py t0) s
      | [t0, t1] \<Rightarrow>
          (case lastTouchDist s of
             None \<Rightarrow> Some s
           | Some lastDist \<Rightarrow>
               if lastDist = 0 then Some s
               else case lastTouchCenter s of
                      None \<Rightarrow> Some s
                    | Some lastCenter \<Rightarrow>
                        case canvasRef s of
                          None \<Rightarrow> Some s
                        | Some rect \<Rightarrow> pinchStep t0 t1 lastDist lastCenter rect s)
      | _ \<Rightarrow> Some s)"

text \<open>\<open>handleWheel\<close>, from the event's \<open>deltaY\<close>, \<open>clientX\<close> and \<open>clientY\<close>.\<close>

definition handleWheel :: "real \<Rightarrow> real \<Rightarrow> real \<Rightarrow> canvas_state \<Rightarrow> canvas_state option" where
  "handleWheel deltaY clientX clientY s =
     (case canvasRef s of
        None \<Rightarrow> Some s
      | Some rect \<Rightarrow>
          if \<bar>deltaY\<bar> < 1 / 1000 then Some s
          else
            let zoomIntensity = 1 / 1000;
                newZoom = clampZoom (zoom s * exp (- deltaY * zoomIntensity))
            in if zoom s = 0 then None
               else
                 let mouseX = clientX - rect_left rect;
                     mouseY = clientY - rect_top rect;
                     worldX = (mouseX - px (canvasOffset s)) / zoom s;
                     worldY = (mouseY - py (canvasOffset s)) / zoom s;
                     newOffsetX = mouseX - worldX * newZoom;
                     newOffsetY = mouseY - worldY * newZoom
                 in Some (s\<lparr>zoom := newZoom,
                            canvasOffset := \<lparr>px = newOffsetX, py = newOffsetY\<rparr>\<rparr>))"

section \<open>Events between a press and a release\<close>

text \<open>
  The wrappers \<open>handleMouseMove\<close>, \<open>handleTouchMove\<close> and \<open>handleWheel\<close> pass the
  event's fields to the handlers above. A gesture is the list of such events that
  arrive after a press and before the release; \<open>runEvents\<close> feeds them to the
  handlers in order and stops at the first handler that leaves the model.
\<close>

datatype gesture_event =
    MouseMove real real
  | TouchMove "point list"
  | Wheel real real real

fun dispatch :: "gesture_event \<Rightarrow> canvas_state \<Rightarrow> canvas_state option" where
  "dispatch (MouseMove clientX clientY) s = handleMove clientX clientY s"
| "dispatch (TouchMove touches) s = handleTouchMove touches s"
| "dispatch (Wheel deltaY clientX clientY) s = handleWheel deltaY clientX clientY s"

fun runEvents :: "gesture_event list \<Rightarrow> canvas_state \<Rightarrow> canvas_state option" where
  "runEvents [] s = Some s"
| "runEvents (e # es) s = (case dispatch e s of None \<Rightarrow> None | Some s' \<Rightarrow> runEvents es s')"

section \<open>Layer operations (\<open>useCanvasLayers\<close>)\<close>

definition handleUndo :: "canvas_state \<Rightarrow> canvas_state" where
  "handleUndo s =
     (case layers s of
        [] \<Rightarrow> s
      | removed # remaining \<Rightarrow>
          let s0 = s\<lparr>layers := remaining, redoStack := removed # redoStack s\<rparr>
          in if layer_id removed \<in> set (selectedLayerIds s)
             then s0\<lparr>selectedLayerIds := filter (\<lambda>i. i \<noteq> layer_id removed) (selectedLayerIds s),
                     showLayerMenuMobile := False\<rparr>
             else s0)"

definition handleRedo :: "canvas_state \<Rightarrow> canvas_state" where
  "handleRedo s =
     (case redoStack s of
        [] \<Rightarrow> s
      | restored # remainingStack \<Rightarrow>
          s\<lparr>redoStack := remainingStack,
            layers := restored # layers s,
            selectedLayerIds := [layer_id restored]\<rparr>)"

definition handleDeleteLayer :: "string \<Rightarrow> canvas_state \<Rightarrow> canvas_state" where
  "handleDeleteLayer i s =
     (let s0 = s\<lparr>layers := filter (\<lambda>l. layer_id l \<noteq> i) (layers s)\<rparr>;
          s1 = (if i \<in> set (selectedLayerIds s)
                then s0\<lparr>selectedLayerIds := filter (\<lambda>k. k \<noteq> i) (selectedLayerIds s),
                        showLayerMenuMobile := False\<rparr>
                else s0)
      in s1\<lparr>redoStack := []\<rparr>)"

section \<open>World to screen (\<open>CanvasMode.tsx\<close>)\<close>

text \<open>
  The canvas content is drawn under
  \<open>transform: translate3d(canvasOffset.x, canvasOffset.y, 0) scale(zoom)\<close> with origin
  \<open>0 0\<close> inside the element of \<open>canvasRef\<close>: the client position of a world point.
\<close>

definition toClient :: "canvas_state \<Rightarrow> dom_rect \<Rightarrow> point \<Rightarrow> point" where
  "toClient s rect w =
     \<lparr>px = rect_left rect + px (canvasOffset s) + px w * zoom s,
      py = rect_top rect + py (canvasOffset s) + py w * zoom s\<rparr>"

section \<open>Strings and errors\<close>

text \<open>
  The white space that \<open>String.prototype.trim\<close> and \<open>parseInt\<close> skip, among the code
  units below 256: tab, line feed, vertical tab, form feed, carriage return, space and
  the no-break space.
\<close>

definition isWhiteSpace :: "char \<Rightarrow> bool" where
  "isWhiteSpace ch \<longleftrightarrow> (of_char ch :: nat) \<in> {9, 10, 11, 12, 13, 32, 160}"

definition trim :: "string \<Rightarrow> string" where
  "trim str = rev (dropWhile isWhiteSpace (rev (dropWhile isWhiteSpace str)))"

text \<open>
  \<open>String.prototype.toLowerCase\<close> on code units below 256: the letters A to Z and the
  accented capitals U+00C0 to U+00DE, without the multiplication sign U+00D7, move up
  by 32.
\<close>

definition toLowerChar :: "char \<Rightarrow> char" where
  "toLowerChar ch =
     (let n = (of_char ch :: nat)
      in if (65 \<le> n \<and> n \<le> 90) \<or> (192 \<le> n \<and> n \<le> 222 \<and> n \<noteq> 215)
         then char_of (n + 32) else ch)"

definition toLowerCase :: "string \<Rightarrow> string" where
  "toLowerCase str = map toLowerChar str"

fun startsWith :: "string \<Rightarrow> string \<Rightarrow> bool" where
  "startsWith str [] = True"
| "startsWith [] (c # cs) = False"
| "startsWith (x # xs) (c # cs) = (x = c \<and> startsWith xs cs)"

text \<open>\<open>String.prototype.includes\<close>; the name \<open>includes\<close> is taken in Isabelle.\<close>

fun includesStr :: "string \<Rightarrow> string \<Rightarrow> bool" where
  "includesStr [] sub = (sub = [])"
| "includesStr (x # xs) sub = (startsWith (x # xs) sub \<or> includesStr xs sub)"

text \<open>
  \<open>parseInt(str)\<close> without a radix: leading white space, an optional sign, an optional
  \<open>0x\<close> or \<open>0X\<close> that switches to base 16, then the longest run of digits. \<open>None\<close>
  is \<open>NaN\<close>, the result when there is no digit.
\<close>

definition digitOf :: "nat \<Rightarrow> char \<Rightarrow> nat option" where
  "digitOf radix ch =
     (let n = (of_char ch :: nat);
          v = (if 48 \<le> n \<and> n \<le> 57 then Some (n - 48)
               else if 97 \<le> n \<and> n \<le> 122 then Some (n - 87)
               else if 65 \<le> n \<and> n \<le> 90 then Some (n - 55)
               else None)
      in case v of None \<Rightarrow> None | Some d \<Rightarrow> if d < radix then Some d else None)"

fun digitsValue :: "nat \<Rightarrow> nat \<Rightarrow> string \<Rightarrow> nat" where
  "digitsValue radix acc [] = acc"
| "digitsValue radix acc (ch # cs) =
     (case digitOf radix ch of
        None \<Rightarrow> acc
      | Some d \<Rightarrow> digitsValue radix (acc * radix + d) cs)"

definition parseDigits :: "nat \<Rightarrow> string \<Rightarrow> nat option" where
  "parseDigits radix str =
     (case str of
        [] \<Rightarrow> None
      | ch # _ \<Rightarrow> if digitOf radix ch = None then None else Some (digitsValue radix 0 str))"

definition parseUnsigned :: "string \<Rightarrow> nat option" where
  "parseUnsigned str =
     (if startsWith str ''0x'' \<or> startsWith str ''0X''
      then parseDigits 16 (drop 2 str) else parseDigits 10 str)"

definition parseInt :: "string \<Rightarrow> int option" where
  "parseInt str =
     (case dropWhile isWhiteSpace str of
        [] \<Rightarrow> None
      | ch # rest \<Rightarrow>
          if ch = CHR ''-'' then map_option (\<lambda>n. - int n) (parseUnsigned rest)
          else if ch = CHR ''+'' then map_option int (parseUnsigned rest)
          else map_option int (parseUnsigned (ch # rest)))"

text \<open>
  A caught value \<open>err\<close> as the handlers read it: \<open>err?.message\<close> and \<open>err?.code\<close>,
  \<open>None\<close> where the property is missing.
\<close>

record js_error =
  err_message :: "string option"
  err_code :: "string option"

text \<open>\<open>err?.message || ''\<close>.\<close>

definition messageOf :: "js_error \<Rightarrow> string" where
  "messageOf e = (case err_message e of None \<Rightarrow> [] | Some m \<Rightarrow> m)"

text \<open>
  The first test of both catch blocks. The first literal is \<open>cr\<close>, \<open>e\<close> with an acute
  accent (U+00E9), \<open>ditos insuficientes\<close>.
\<close>

definition creditosInsuficientes :: string where
  "creditosInsuficientes = ''cr'' @ [CHR 0xE9] @ ''ditos insuficientes''"

definition isCreditError :: "js_error \<Rightarrow> bool" where
  "isCreditError e \<longleftrightarrow>
     includesStr (toLowerCase (messageOf e)) creditosInsuficientes
     \<or> includesStr (toLowerCase (messageOf e)) ''insufficient''
     \<or> err_code e = Some ''functions/resource-exhausted''"

definition isSafetyError :: "js_error \<Rightarrow> bool" where
  "isSafetyError e \<longleftrightarrow> startsWith (messageOf e) ''SAFETY_FILTER:''"

text \<open>
  What a Cloud Function call did: it resolved with a value (\<open>None\<close> where the wrapper
  returns \<open>null\<close>) or it rejected.
\<close>

datatype call_result = Resolved "string option" | Rejected js_error

section \<open>Studio scene generation (\<open>SceneRow.handleGenerate\<close>)\<close>

record Shot =
  prompt :: string
  duration :: string

record Scene =
  scene_id :: string
  startFrame :: "string option"
  endFrame :: "string option"
  shots :: "Shot list"
  videos :: "string list"
  selectedVideoIndex :: int
  scene_isGenerating :: bool
  variationCount :: nat

text \<open>The messages of \<open>alert\<close>, by kind.\<close>

datatype studio_alert =
    StartFrameRequired
  | PromptRequired
  | TooManyShots
  | DurationTooLong int
  | InsufficientCredits
  | SafetyFilterBlocked
  | SceneError string

text \<open>The two video endpoints, with the prompt and duration arguments.\<close>

datatype endpoint_call =
    GenerateVideo string string
  | GenerateVideoMultiShot "(string \<times> string) list"

datatype studio_effect =
    Alert studio_alert
  | SetGenerating bool
  | Call endpoint_call

text \<open>\<open>str || dflt\<close> on strings: the empty string is falsy.\<close>

definition orElse :: "string \<Rightarrow> string \<Rightarrow> string" where
  "orElse str dflt = (if str = [] then dflt else str)"

definition validShotsOf :: "Scene \<Rightarrow> Shot list" where
  "validShotsOf scene = filter (\<lambda>sh. length (trim (prompt sh)) > 0) (shots scene)"

text \<open>
  \<open>validShots.reduce((sum, s) => sum + parseInt(s.duration || '5'), 0)\<close>; a sum with
  \<open>NaN\<close> is \<open>NaN\<close>.
\<close>

definition totalDuration :: "Shot list \<Rightarrow> int option" where
  "totalDuration vs =
     foldl (\<lambda>sum sh. case sum of
                       None \<Rightarrow> None
                     | Some t \<Rightarrow> map_option (\<lambda>d. t + d) (parseInt (orElse (duration sh) ''5'')))
       (Some 0) vs"

text \<open>
  The checks before \<open>onUpdate(scene.id, { isGenerating: true })\<close>: the alert of the
  check that returns, or the valid shots. \<open>NaN > 15\<close> is false.
\<close>

definition validateScene :: "Scene \<Rightarrow> studio_alert + Shot list" where
  "validateScene scene =
     (if startFrame scene = None \<or> startFrame scene = Some [] then Inl StartFrameRequired
      else
        let validShots = validShotsOf scene
        in if length validShots = 0 then Inl PromptRequired
           else if length validShots \<ge> 2
           then if length validShots > 6 then Inl TooManyShots
                else case totalDuration validShots of
                       None \<Rightarrow> Inr validShots
                     | Some t \<Rightarrow> if t > 15 then Inl (DurationTooLong t) else Inr validShots
           else Inr validShots)"

definition defaultPrompt :: string where
  "defaultPrompt = ''Smooth cinematic camera movement''"

text \<open>The call of one round of the variation loop.\<close>

definition callFor :: "Shot list \<Rightarrow> endpoint_call" where
  "callFor validShots =
     (case validShots of
        [sh] \<Rightarrow> GenerateVideo (orElse (prompt sh) defaultPrompt) (orElse (duration sh) ''5'')
      | _ \<Rightarrow> GenerateVideoMultiShot
               (map (\<lambda>sh. (orElse (prompt sh) defaultPrompt, orElse (duration sh) ''5''))
                  validShots))"

definition studioAlertFor :: "js_error \<Rightarrow> studio_alert" where
  "studioAlertFor e =
     (if isCreditError e then InsufficientCredits
      else if isSafetyError e then SafetyFilterBlocked
      else SceneError (messageOf e))"

text \<open>
  The loop \<open>for (let i = 0; i < scene.variationCount; i++)\<close> with the catch and
  finally blocks, as the list of effects from the first call on. The results of the
  calls are given in order; when they run out, the last call made never settles and
  nothing follows it. What follows a resolved call inside the loop (the update of the
  scene's videos, the frame extraction and the chaining) makes no call to an endpoint
  and is left out of the trace.
\<close>

fun runVariations :: "nat \<Rightarrow> endpoint_call \<Rightarrow> call_result list \<Rightarrow> studio_effect list" where
  "runVariations 0 c rs = [SetGenerating False]"
| "runVariations (Suc n) c [] = [Call c]"
| "runVariations (Suc n) c (Resolved v # rs) = Call c # runVariations n c rs"
| "runVariations (Suc n) c (Rejected e # rs) =
     [Call c, Alert (studioAlertFor e), SetGenerating False]"

text \<open>
  \<open>handleGenerate\<close>. \<open>prepared\<close> tells whether the orientation probe and
  \<open>cropImageToRatio\<close> settle; their promises never reject, and when one never settles
  the handler stays suspended before the loop.
\<close>

definition handleGenerate :: "Scene \<Rightarrow> bool \<Rightarrow> call_result list \<Rightarrow> studio_effect list" where
  "handleGenerate scene prepared results =
     (case validateScene scene of
        Inl a \<Rightarrow> [Alert a]
      | Inr validShots \<Rightarrow>
          SetGenerating True #
            (if prepared then runVariations (variationCount scene) (callFor validShots) results
             else []))"

text \<open>The options of the duration \<open>select\<close> of a shot.\<close>

definition durationOptions :: "string list" where
  "durationOptions = [''3'', ''4'', ''5'', ''6'', ''7'', ''8'', ''9'', ''10'']"

section \<open>Canvas generation (\<open>geminiService.ts\<close>, \<open>useCanvasGeneration.ts\<close>)\<close>

datatype ModelType = NANO_BANANA_1 | NANO_BANANA_2 | KLING_PRO

text \<open>
  What \<open>httpsCallable(...)\<close> did: it returned data, of which the wrapper reads one
  field (\<open>None\<close> when the field is missing), or it threw.
\<close>

datatype callable_result = CallableData "string option" | CallableError js_error

definition resourceExhausted :: string where
  "resourceExhausted = ''functions/resource-exhausted''"

text \<open>The fallback message of the wrappers, \<open>Cr\<close>, U+00E9, \<open>ditos insuficientes.\<close>\<close>

definition fallbackCreditMessage :: string where
  "fallbackCreditMessage = ''Cr'' @ [CHR 0xE9] @ ''ditos insuficientes.''"

text \<open>\<open>data.field || null\<close>: a missing or empty field is \<open>null\<close>.\<close>

definition orNull :: "string option \<Rightarrow> string option" where
  "orNull d = (case d of None \<Rightarrow> None | Some v \<Rightarrow> if v = [] then None else Some v)"

text \<open>
  \<open>generateImageContent\<close>: an error with the code \<open>functions/resource-exhausted\<close> is
  thrown again as a new \<open>Error\<close> that has the message, or the fallback, and no code.
\<close>

definition generateImageContent :: "callable_result \<Rightarrow> call_result" where
  "generateImageContent r =
     (case r of
        CallableData d \<Rightarrow> Resolved (orNull d)
      | CallableError e \<Rightarrow>
          if err_code e = Some resourceExhausted
          then Rejected \<lparr>err_message = Some (orElse (messageOf e) fallbackCreditMessage),
                         err_code = None\<rparr>
          else Rejected e)"

text \<open>\<open>generateVideo\<close>: the same, and a message with \<open>SAFETY_FILTER\<close> comes in a new \<open>Error\<close>.\<close>

definition generateVideo :: "callable_result \<Rightarrow> call_result" where
  "generateVideo r =
     (case r of
        CallableData d \<Rightarrow> Resolved (orNull d)
      | CallableError e \<Rightarrow>
          if err_code e = Some resourceExhausted
          then Rejected \<lparr>err_message = Some (orElse (messageOf e) fallbackCreditMessage),
                         err_code = None\<rparr>
          else if (case err_message e of None \<Rightarrow> False | Some m \<Rightarrow> includesStr m ''SAFETY_FILTER'')
          then Rejected \<lparr>err_message = err_message e, err_code = None\<rparr>
          else Rejected e)"

text \<open>The three alerts of the catch block of \<open>triggerGeneration\<close>.\<close>

datatype canvas_alert = CreditsAlert | SafetyAlert | GenericAlert

definition canvasAlertFor :: "js_error \<Rightarrow> canvas_alert" where
  "canvasAlertFor e =
     (if isCreditError e then CreditsAlert
      else if isSafetyError e then SafetyAlert
      else GenericAlert)"

text \<open>
  The state \<open>triggerGeneration\<close> writes: the canvas state, the visual effect, the
  alerts shown so far and the number of autosave timers started.
\<close>

record gen_state = canvas_state +
  generatingEffect :: string
  shownAlerts :: "canvas_alert list"
  autoSaveTimers :: nat

text \<open>The props that \<open>triggerGeneration\<close> reads besides the state.\<close>

record gen_props =
  referenceImages :: "string list"
  activeModel :: ModelType
  genVariationCount :: nat
  hasAutoSave :: bool

definition ALL_EFFECTS :: "string list" where
  "ALL_EFFECTS = [''effect-rainbow-linear'', ''effect-rainbow-diagonal'', ''effect-rainbow-vertical'']"

text \<open>A natural number in decimal, as \<open>toString\<close> and template literals print it.\<close>

definition digitChar :: "nat \<Rightarrow> char" where
  "digitChar d = char_of (of_char (CHR ''0'') + d)"

function showNat :: "nat \<Rightarrow> string" where
  "showNat n =
     (if 10 \<le> n then showNat (n div 10) @ [digitChar (n mod 10)] else [digitChar n])"
  by pat_completeness auto
termination
  by (relation "measure (\<lambda>n. n)") auto

text \<open>What the loop body needs of the values computed before the loop.\<close>

record gen_ctx =
  ctx_selection :: selection_rect
  ctx_finalPrompt :: string
  ctx_imagesToSend :: "string list"
  ctx_layerRenderMode :: RenderMode
  ctx_isVideoModel :: bool
  ctx_feather :: real

definition videoLayer :: "gen_ctx \<Rightarrow> nat \<Rightarrow> nat \<Rightarrow> string \<Rightarrow> Layer" where
  "videoLayer ctx i now videoUrl =
     (let sel = ctx_selection ctx
      in \<lparr>layer_id = showNat now @ showNat i,
          layer_name = ''Video: '' @ take 10 (ctx_finalPrompt ctx) @ ''...'',
          visible = True, locked = False, layer_type = VideoLayer,
          src = Some videoUrl, thumbnail = None,
          layer_x = sel_x sel, layer_y = sel_y sel, width = sel_w sel, height = sel_h sel,
          initialX = Some (sel_x sel), initialY = Some (sel_y sel),
          initialWidth = Some (sel_w sel), initialHeight = Some (sel_h sel),
          feather = Some 0, renderMode = Some Cover, isPlaying = Some True,
          decorData = None\<rparr>)"

definition generationLayer :: "gen_ctx \<Rightarrow> nat \<Rightarrow> nat \<Rightarrow> string \<Rightarrow> Layer" where
  "generationLayer ctx i now base64Image =
     (let sel = ctx_selection ctx
      in \<lparr>layer_id = showNat now @ showNat i,
          layer_name = ''Gen '' @ showNat (i + 1) @ '': '' @ take 10 (ctx_finalPrompt ctx) @ ''...'',
          visible = True, locked = False, layer_type = GenerationLayer,
          src = Some base64Image, thumbnail = None,
          layer_x = sel_x sel, layer_y = sel_y sel, width = sel_w sel, height = sel_h sel,
          initialX = Some (sel_x sel), initialY = Some (sel_y sel),
          initialWidth = Some (sel_w sel), initialHeight = Some (sel_h sel),
          feather = Some (ctx_feather ctx), renderMode = Some (ctx_layerRenderMode ctx),
          isPlaying = None, decorData = None\<rparr>)"

text \<open>\<open>setLayers(prev => [newLayer, ...prev]); setSelectedLayerIds([newLayer.id])\<close>.\<close>

definition addLayer :: "Layer \<Rightarrow> gen_state \<Rightarrow> gen_state" where
  "addLayer l s = s\<lparr>layers := l # layers s, selectedLayerIds := [layer_id l]\<rparr>"

text \<open>
  How a loop ends: it ran all its rounds, a call threw, or a call never settled. Each
  carries the state reached.
\<close>

datatype loop_end = Completed gen_state | Threw js_error gen_state | Waiting gen_state

text \<open>
  The loop \<open>for (let i = 0; i < loops; i++)\<close>, from round \<open>i\<close> with \<open>n\<close> rounds to
  go. Each round takes the value of \<open>Date.now()\<close> and what the callable did.
\<close>

fun generationLoop ::
  "gen_ctx \<Rightarrow> nat \<Rightarrow> nat \<Rightarrow> (nat \<times> callable_result) list \<Rightarrow> gen_state \<Rightarrow> loop_end" where
  "generationLoop ctx i 0 outs s = Completed s"
| "generationLoop ctx i (Suc n) [] s = Waiting s"
| "generationLoop ctx i (Suc n) ((now, r) # outs) s =
     (if ctx_isVideoModel ctx \<and> length (ctx_imagesToSend ctx) > 0
      then case generateVideo r of
             Rejected e \<Rightarrow> Threw e s
           | Resolved None \<Rightarrow> generationLoop ctx (Suc i) n outs s
           | Resolved (Some videoUrl) \<Rightarrow>
               generationLoop ctx (Suc i) n outs
                 (if videoUrl = [] then s else addLayer (videoLayer ctx i now videoUrl) s)
      else case generateImageContent r of
             Rejected e \<Rightarrow> Threw e s
           | Resolved None \<Rightarrow> generationLoop ctx (Suc i) n outs s
           | Resolved (Some base64Image) \<Rightarrow>
               generationLoop ctx (Suc i) n outs
                 (if base64Image = [] then s
                  else addLayer (generationLayer ctx i now base64Image) s))"

text \<open>The state that the end of a loop carries.\<close>

fun endState :: "loop_end \<Rightarrow> gen_state" where
  "endState (Completed s) = s"
| "endState (Threw e s) = s"
| "endState (Waiting s) = s"

text \<open>
  The values computed between the snapshot and the loop. The arguments of the calls
  (aspect ratio, size label, images) do not reach the state and are not modelled.
\<close>

definition contextOf ::
  "string \<Rightarrow> real option \<Rightarrow> gen_props \<Rightarrow> selection_rect \<Rightarrow> string option \<Rightarrow> gen_ctx" where
  "contextOf promptText defaultFeather props sel snapshot =
     (let refs = referenceImages props;
          hasSnapshot = (case snapshot of None \<Rightarrow> False | Some d \<Rightarrow> d \<noteq> []);
          imagesToSend = (if hasSnapshot
                          then (case snapshot of None \<Rightarrow> [] | Some d \<Rightarrow> [d])
                               @ (if length refs > 0 then refs else [])
                          else if length refs > 0 then refs else []);
          finalPrompt = (if hasSnapshot
                         then if length refs > 0
                              then promptText
                                   @ '' . Blend the object from the reference image(s) naturally into the scene.''
                              else promptText
                                   @ '' . Maintain exact scale, perspective and position of original image elements.''
                         else promptText);
          mode = (if hasSnapshot then Fill else if length refs > 0 then Cover else Fill);
          isVideoModel = (activeModel props = KLING_PRO)
      in \<lparr>ctx_selection = sel, ctx_finalPrompt = finalPrompt, ctx_imagesToSend = imagesToSend,
          ctx_layerRenderMode = (if isVideoModel then Cover else mode),
          ctx_isVideoModel = isVideoModel,
          ctx_feather = (case defaultFeather of None \<Rightarrow> 0 | Some f \<Rightarrow> f)\<rparr>)"

text \<open>The finally block.\<close>

definition finishGeneration :: "gen_props \<Rightarrow> gen_state \<Rightarrow> gen_state" where
  "finishGeneration props s =
     (let s0 = s\<lparr>isGenerating := False, selection := None, generatingEffect := []\<rparr>
      in if hasAutoSave props then s0\<lparr>autoSaveTimers := Suc (autoSaveTimers s0)\<rparr> else s0)"

text \<open>The catch block: one alert.\<close>

definition catchGeneration :: "js_error \<Rightarrow> gen_state \<Rightarrow> gen_state" where
  "catchGeneration e s = s\<lparr>shownAlerts := shownAlerts s @ [canvasAlertFor e]\<rparr>"

text \<open>How the handler ends: it returned, or it waits for a call that never settles.\<close>

datatype handler_end = Returned gen_state | Pending gen_state

text \<open>
  \<open>triggerGeneration(promptText, options)\<close>. \<open>rnd\<close> is the index that
  \<open>Math.floor(Math.random() * ALL_EFFECTS.length)\<close> produced, \<open>snapshot\<close> what the
  awaited \<open>getCanvasSnapshot\<close> did (it resolves with a data URL or with \<open>null\<close>, or
  throws from the canvas), \<open>outs\<close> the clock and the callable's result for each round
  of the loop.
\<close>

definition triggerGeneration ::
  "string \<Rightarrow> real option \<Rightarrow> gen_props \<Rightarrow> nat \<Rightarrow> call_result
     \<Rightarrow> (nat \<times> callable_result) list \<Rightarrow> gen_state \<Rightarrow> handler_end" where
  "triggerGeneration promptText defaultFeather props rnd snapshot outs s =
     (case selection s of
        None \<Rightarrow> Returned s
      | Some sel \<Rightarrow>
          let s1 = s\<lparr>generatingEffect := ALL_EFFECTS ! (rnd mod 3), isGenerating := True\<rparr>
          in case snapshot of
               Rejected e \<Rightarrow> Returned (finishGeneration props (catchGeneration e s1))
             | Resolved snap \<Rightarrow>
                 let ctx = contextOf promptText defaultFeather props sel snap;
                     loops = (if ctx_isVideoModel ctx then 1 else genVariationCount props)
                 in case generationLoop ctx 0 loops outs s1 of
                      Completed s2 \<Rightarrow> Returned (finishGeneration props (s2\<lparr>redoStack := []\<rparr>))
                    | Threw e s2 \<Rightarrow> Returned (finishGeneration props (catchGeneration e s2))
                    | Waiting s2 \<Rightarrow> Pending s2)"

text \<open>
  The error that the Cloud Functions throw from \<open>deductCredits\<close> when the balance is
  \<open>have\<close> and the cost is \<open>need\<close>, as the client catches it.
\<close>

definition creditExhaustion :: "nat \<Rightarrow> nat \<Rightarrow> js_error" where
  "creditExhaustion have need =
     \<lparr>err_message =
        Some (''Cr'' @ [CHR 0xE9] @ ''ditos insuficientes. Voc'' @ [CHR 0xEA] @ '' tem ''
              @ showNat have @ '', mas precisa de '' @ showNat need @ ''.''),
      err_code = Some resourceExhausted\<rparr>"

text \<open>What both wrappers throw when the callable threw that error: the message, no code.\<close>

definition rethrown :: "nat \<Rightarrow> nat \<Rightarrow> js_error" where
  "rethrown h c = \<lparr>err_message = Some (messageOf (creditExhaustion h c)), err_code = None\<rparr>"

section \<open>Movie export (\<open>useStudioExport\<close>)\<close>

text \<open>
  \<open>handleExportFullMovie\<close> is an asynchronous function: it runs until it awaits, and
  goes on when an event of the page resolves the awaited promise or calls a handler it
  has installed. The model is the state the function keeps between events (the promise
  it awaits, \<open>currentSceneIndex\<close>, whether \<open>videoEl.onended\<close> is set, the recorder),
  the state of the one hidden video element, and a log of what the function has done.
\<close>

definition qualifies :: "Scene \<Rightarrow> bool" where
  "qualifies sc \<longleftrightarrow> length (videos sc) > 0 \<and> selectedVideoIndex sc \<noteq> - 1"

definition validScenesOf :: "Scene list \<Rightarrow> Scene list" where
  "validScenesOf scenes = filter qualifies scenes"

text \<open>\<open>scene.videos[scene.selectedVideoIndex]\<close>; out of range it is \<open>undefined\<close>.\<close>

definition selectedVideoUrl :: "Scene \<Rightarrow> string option" where
  "selectedVideoUrl sc =
     (let i = selectedVideoIndex sc
      in if 0 \<le> i \<and> nat i < length (videos sc) then Some (videos sc ! nat i) else None)"

text \<open>
  The log. A scene is named by its index in \<open>validScenes\<close>. \<open>VideoLoaded\<close> is
  \<open>videoEl.src = selectedVideoUrl; videoEl.load()\<close>, \<open>PlaybackStarted\<close> the call of
  \<open>videoEl.play()\<close>, \<open>VideoEnded\<close> the run of the \<open>onended\<close> handler,
  \<open>StopScheduled\<close> the timer for \<open>recorder.stop()\<close> and \<open>FileDownloaded\<close> the click
  on the download link in \<open>recorder.onstop\<close>.
\<close>

datatype export_entry =
    AlertNoScenes
  | AlertExportError
  | RecorderStarted
  | VideoLoaded nat "string option"
  | PlaybackStarted nat
  | VideoEnded nat
  | StopScheduled
  | FileDownloaded

datatype pending = NotWaiting | AwaitMetadata | AwaitCanPlay | AwaitPlay

datatype recorder_state = NotCreated | Recording | StopPending | Stopped

text \<open>
  The hidden video element: without a source, loading one, able to play through,
  playing, ended.
\<close>

datatype element_state = NoSource | LoadingSrc "string option" | CanPlay | Playing | EndedEl

record export_state =
  validScenes :: "Scene list"
  isExporting :: bool
  awaiting :: pending
  currentSceneIndex :: nat
  onendedSet :: bool
  recorder :: recorder_state
  drawing :: bool
  videoEl :: element_state
  exportLog :: "export_entry list"

text \<open>The events of the page that the function waits for.\<close>

datatype export_event =
    LoadedMetadata nat nat
  | CanPlayThrough
  | PlaySettled bool
  | Ended
  | StopTimer

text \<open>The function up to its first await.\<close>

definition handleExportFullMovie :: "Scene list \<Rightarrow> export_state" where
  "handleExportFullMovie scenes =
     (let vs = validScenesOf scenes;
          s0 = \<lparr>validScenes = vs, isExporting = False, awaiting = NotWaiting,
                currentSceneIndex = 0, onendedSet = False, recorder = NotCreated,
                drawing = False, videoEl = NoSource, exportLog = []\<rparr>
      in if length vs = 0 then s0\<lparr>exportLog := [AlertNoScenes]\<rparr>
         else s0\<lparr>isExporting := True, awaiting := AwaitMetadata\<rparr>)"

text \<open>\<open>playNext\<close> up to its first await.\<close>

definition playNext :: "export_state \<Rightarrow> export_state" where
  "playNext s =
     (if currentSceneIndex s \<ge> length (validScenes s)
      then s\<lparr>drawing := False, recorder := StopPending,
             exportLog := exportLog s @ [StopScheduled]\<rparr>
      else
        let scene = validScenes s ! currentSceneIndex s
        in s\<lparr>videoEl := LoadingSrc (selectedVideoUrl scene), awaiting := AwaitCanPlay,
             exportLog := exportLog s
               @ [VideoLoaded (currentSceneIndex s) (selectedVideoUrl scene)]\<rparr>)"

text \<open>
  One event. \<open>None\<close> means that the page cannot raise the event in this state: the
  probe's metadata arrives only while it is awaited, \<open>canplaythrough\<close> needs a source
  that loads, a \<open>play()\<close> promise settles only after \<open>play()\<close> was called, \<open>ended\<close>
  needs a playing element, the timer fires only once set. \<open>setupOk\<close> tells whether the
  audio context and the 2D context of the canvas could be created; if not, the try block
  throws before the recorder exists.
\<close>

definition react :: "bool \<Rightarrow> export_event \<Rightarrow> export_state \<Rightarrow> export_state option" where
  "react setupOk ev s =
     (case ev of
        LoadedMetadata w h \<Rightarrow>
          if awaiting s \<noteq> AwaitMetadata then None
          else if \<not> setupOk
          then Some (s\<lparr>awaiting := NotWaiting, isExporting := False,
                        exportLog := exportLog s @ [AlertExportError]\<rparr>)
          else Some (playNext (s\<lparr>awaiting := NotWaiting, recorder := Recording,
                                  exportLog := exportLog s @ [RecorderStarted]\<rparr>))
      | CanPlayThrough \<Rightarrow>
          (case videoEl s of
             LoadingSrc (Some u) \<Rightarrow>
               if awaiting s = AwaitCanPlay
               then Some (s\<lparr>videoEl := CanPlay, awaiting := AwaitPlay,
                             exportLog := exportLog s @ [PlaybackStarted (currentSceneIndex s)]\<rparr>)
               else Some (s\<lparr>videoEl := CanPlay\<rparr>)
           | CanPlay \<Rightarrow> Some s
           | Playing \<Rightarrow> Some s
           | _ \<Rightarrow> None)
      | PlaySettled ok \<Rightarrow>
          if awaiting s \<noteq> AwaitPlay then None
          else Some (s\<lparr>awaiting := NotWaiting, onendedSet := True,
                        drawing := (drawing s \<or> currentSceneIndex s = 0),
                        videoEl := (if ok then Playing else videoEl s)\<rparr>)
      | Ended \<Rightarrow>
          if videoEl s \<noteq> Playing then None
          else if onendedSet s
          then Some (playNext (s\<lparr>videoEl := EndedEl,
                                  currentSceneIndex := Suc (currentSceneIndex s),
                                  exportLog := exportLog s @ [VideoEnded (currentSceneIndex s)]\<rparr>))
          else Some (s\<lparr>videoEl := EndedEl\<rparr>)
      | StopTimer \<Rightarrow>
          if recorder s \<noteq> StopPending then None
          else Some (s\<lparr>recorder := Stopped, isExporting := False,
                        exportLog := exportLog s @ [FileDownloaded]\<rparr>))"

fun runExport :: "bool \<Rightarrow> export_event list \<Rightarrow> export_state \<Rightarrow> export_state option" where
  "runExport setupOk [] s = Some s"
| "runExport setupOk (ev # evs) s =
     (case react setupOk ev s of None \<Rightarrow> None | Some s' \<Rightarrow> runExport setupOk evs s')"

text \<open>
  What a whole export does, for comparison: the recorder starts, then for each valid
  scene in order its video is loaded, played and ended, then the stop is scheduled and
  the file is downloaded.
\<close>

definition sceneEntries :: "Scene list \<Rightarrow> nat \<Rightarrow> export_entry list" where
  "sceneEntries vs i = [VideoLoaded i (selectedVideoUrl (vs ! i)), PlaybackStarted i, VideoEnded i]"

definition playedUpTo :: "Scene list \<Rightarrow> nat \<Rightarrow> export_entry list" where
  "playedUpTo vs k = RecorderStarted # concat (map (sceneEntries vs) [0..<k])"

definition wholeExport :: "Scene list \<Rightarrow> export_entry list" where
  "wholeExport vs = playedUpTo vs (length vs) @ [StopScheduled, FileDownloaded]"

text \<open>The events of an export in which every video loads, plays and ends.\<close>

definition smoothEvents :: "nat \<Rightarrow> export_event list" where
  "smoothEvents n =
     LoadedMetadata 1920 1080
       # concat (replicate n [CanPlayThrough, PlaySettled True, Ended]) @ [StopTimer]"

section \<open>Fixtures\<close>

text \<open>
  A mounted canvas at the page origin, zoom 1, no pan, nothing in progress, no layers:
  the state the concrete evaluations below start from.
\<close>

definition idleState :: canvas_state where
  "idleState =
     \<lparr>selection = None, isDragging = False, dragStart = None, draggingLayerId = None,
      layerDragOffset = None, zoom = 1, canvasOffset = \<lparr>px = 0, py = 0\<rparr>,
      canvasRef = Some \<lparr>rect_left = 0, rect_top = 0\<rparr>, isMiddlePanning = False,
      dragStartRef = None, isDraggingRef = False, isDraggingLayerRef = False,
      isDraggingSelectionRef = False, selectionDragStartRef = None,
      initialSelectionPosRef = None, dragAxisRef = None, lastTouchDist = None,
      lastTouchCenter = None, selectedTool = Select, layers = [],
      availableResolutions = [], isGenerating = False, showLayerMenuMobile = False,
      selectedLayerIds = [], redoStack = []\<rparr>"

text \<open>A visible, unlocked image layer with the given id and bounds.\<close>

definition imageLayer :: "string \<Rightarrow> real \<Rightarrow> real \<Rightarrow> real \<Rightarrow> real \<Rightarrow> Layer" where
  "imageLayer i x y w h =
     \<lparr>layer_id = i, layer_name = i, visible = True, locked = False,
      layer_type = ImageLayer, src = None, thumbnail = None,
      layer_x = x, layer_y = y, width = w, height = h,
      initialX = None, initialY = None, initialWidth = None, initialHeight = None,
      feather = None, renderMode = None, isPlaying = None, decorData = None\<rparr>"

text \<open>
  Two overlapping layers. The list is in the program's z-order: \<open>CanvasMode\<close> renders
  \<open>[...layers].reverse()\<close>, so index 0 is drawn last and lies on top.
\<close>

definition twoLayers :: "Layer list" where
  "twoLayers = [imageLayer ''top'' 0 0 100 100, imageLayer ''bottom'' 0 0 100 100]"

text \<open>
  Two fingers rest at (50, 100) and (150, 100): distance 100, midpoint (100, 100).
\<close>

definition pinchState :: canvas_state where
  "pinchState = handleTouchStart [\<lparr>px = 50, py = 100\<rparr>, \<lparr>px = 150, py = 100\<rparr>] idleState"

text \<open>
  The select tool with two candidate resolutions, 1:1 and 16:9 (ratio 1.78), pressed at
  the client point (0, 0) of an empty canvas: a selection drag anchored at the world
  origin.
\<close>

definition squareAndWide :: "Resolution list" where
  "squareAndWide =
     [\<lparr>res_w = 1024, res_h = 1024, res_ratio = 1, res_label = Some ''1:1''\<rparr>,
      \<lparr>res_w = 1344, res_h = 768, res_ratio = 178 / 100, res_label = Some ''16:9''\<rparr>]"

definition dragFromOrigin :: canvas_state where
  "dragFromOrigin = handleStart 0 0 0 (idleState\<lparr>availableResolutions := squareAndWide\<rparr>)"

text \<open>The same press with no candidate resolutions at all.\<close>

definition dragNoResolutions :: canvas_state where
  "dragNoResolutions = handleStart 0 0 0 idleState"

text \<open>
  The same press with a single candidate whose ratio is \<open>-1\<close>, and with a single
  candidate whose ratio is 0.
\<close>

definition dragNegativeRatio :: canvas_state where
  "dragNegativeRatio =
     handleStart 0 0 0 (idleState\<lparr>availableResolutions :=
       [\<lparr>res_w = 1024, res_h = 1024, res_ratio = - 1, res_label = None\<rparr>]\<rparr>)"

definition dragZeroRatio :: canvas_state where
  "dragZeroRatio =
     handleStart 0 0 0 (idleState\<lparr>availableResolutions :=
       [\<lparr>res_w = 1024, res_h = 1024, res_ratio = 0, res_label = None\<rparr>]\<rparr>)"

text \<open>
  A canvas zoomed out to 0.5 with the selection (0, 0, 100, 100), and the select tool
  pressed at the client point (10, 10), which is the world point (20, 20).
\<close>

definition zoomedOut :: canvas_state where
  "zoomedOut = idleState\<lparr>zoom := 1 / 2,
     selection := Some \<lparr>sel_x = 0, sel_y = 0, sel_w = 100, sel_h = 100\<rparr>\<rparr>"

definition pressInside :: canvas_state where
  "pressInside = handleStart 10 10 0 zoomedOut"

section \<open>The invariant of a selection drag\<close>

text \<open>
  What holds from the press inside the selection \<open>sel0\<close> at the world point \<open>st\<close>
  until the release: the refs of the drag are set, the zoom is not zero, and the
  selection has the size of \<open>sel0\<close> and differs from it at most in the coordinate of
  the locked axis.
\<close>

definition dragInv :: "selection_rect \<Rightarrow> point \<Rightarrow> dom_rect \<Rightarrow> canvas_state \<Rightarrow> bool" where
  "dragInv sel0 st rect s \<longleftrightarrow>
     selectedTool s = Select \<and> isDraggingSelectionRef s
     \<and> selectionDragStartRef s = Some st
     \<and> initialSelectionPosRef s = Some \<lparr>px = sel_x sel0, py = sel_y sel0\<rparr>
     \<and> canvasRef s = Some rect \<and> zoom s \<noteq> 0
     \<and> (\<exists>sel. selection s = Some sel \<and> sel_w sel = sel_w sel0 \<and> sel_h sel = sel_h sel0
            \<and> (case dragAxisRef s of
                  None \<Rightarrow> sel = sel0
                | Some Horizontal \<Rightarrow> sel_y sel = sel_y sel0
                | Some Vertical \<Rightarrow> sel_x sel = sel_x sel0))"

text \<open>
  Two studio scenes with a start frame and two shots each: one with the default
  durations of 5 seconds, one whose shots last 1 second each.
\<close>

definition sceneWith :: "string \<Rightarrow> string \<Rightarrow> Scene" where
  "sceneWith d1 d2 =
     \<lparr>scene_id = ''1'', startFrame = Some ''data:image/png;base64,AAAA'', endFrame = None,
      shots = [\<lparr>prompt = ''walk'', duration = d1\<rparr>, \<lparr>prompt = ''run'', duration = d2\<rparr>],
      videos = [], selectedVideoIndex = - 1, scene_isGenerating = False,
      variationCount = 1\<rparr>"

text \<open>
  A generation over the selection (0, 0, 512, 512) with the first image model and two
  variations, on a canvas without layers. The first call returns an image at time 1000,
  the second is refused for lack of credits (balance 0, cost 1).
\<close>

definition genStart :: gen_state where
  "genStart =
     canvas_state.extend
       (idleState\<lparr>selection := Some \<lparr>sel_x = 0, sel_y = 0, sel_w = 512, sel_h = 512\<rparr>\<rparr>)
       (gen_state.fields [] [] 0)"

definition twoVariations :: gen_props where
  "twoVariations =
     \<lparr>referenceImages = [], activeModel = NANO_BANANA_1, genVariationCount = 2,
      hasAutoSave = True\<rparr>"

definition oneThenRefused :: "(nat \<times> callable_result) list" where
  "oneThenRefused =
     [(1000, CallableData (Some ''data:image/png;base64,BBBB'')),
      (1001, CallableError (creditExhaustion 0 1))]"

section \<open>The invariant of the generation loop\<close>

text \<open>A whole layer on the selection: placed exactly on it, shown, unlocked, with a source.\<close>

definition placedOn :: "selection_rect \<Rightarrow> Layer \<Rightarrow> bool" where
  "placedOn sel l \<longleftrightarrow>
     layer_x l = sel_x sel \<and> layer_y l = sel_y sel \<and> width l = sel_w sel \<and> height l = sel_h sel
     \<and> initialX l = Some (sel_x sel) \<and> initialY l = Some (sel_y sel)
     \<and> initialWidth l = Some (sel_w sel) \<and> initialHeight l = Some (sel_h sel)
     \<and> visible l \<and> \<not> locked l \<and> src l \<noteq> None \<and> src l \<noteq> Some []"

text \<open>
  \<open>s'\<close> is \<open>s\<close> with at most \<open>n\<close> whole layers put in front and the selected ids
  set to the newest of them; nothing else differs.
\<close>

definition grownBy :: "selection_rect \<Rightarrow> nat \<Rightarrow> gen_state \<Rightarrow> gen_state \<Rightarrow> bool" where
  "grownBy sel n s s' \<longleftrightarrow>
     (\<exists>news ids. s' = s\<lparr>layers := news @ layers s, selectedLayerIds := ids\<rparr>
        \<and> length news \<le> n \<and> list_all (placedOn sel) news
        \<and> ids = (if news = [] then selectedLayerIds s else [layer_id (hd news)]))"

text \<open>
  Three studio scenes: one with a chosen video, one without videos, one with two videos
  of which the second is chosen.
\<close>

definition clip :: "string list \<Rightarrow> int \<Rightarrow> Scene" where
  "clip vids chosen =
     \<lparr>scene_id = ''1'', startFrame = None, endFrame = None, shots = [],
      videos = vids, selectedVideoIndex = chosen, scene_isGenerating = False,
      variationCount = 1\<rparr>"

definition threeScenes :: "Scene list" where
  "threeScenes = [clip [''a.mp4''] 0, clip [] (- 1), clip [''b1.mp4'', ''b2.mp4''] 1]"

section \<open>The invariant of an export\<close>

text \<open>
  The log that belongs to a state of an export with the valid scenes \<open>vs\<close>: nothing
  while the probe is awaited, the failure alert when the setup threw, the scenes played
  so far and the steps taken on the current one while the recorder runs, the whole
  sequence up to the scheduled stop or the download afterwards.
\<close>

definition logOf :: "Scene list \<Rightarrow> export_state \<Rightarrow> export_entry list" where
  "logOf vs s =
     (let i = currentSceneIndex s;
          loaded = VideoLoaded i (selectedVideoUrl (vs ! i))
      in case recorder s of
           NotCreated \<Rightarrow> (if awaiting s = AwaitMetadata then [] else [AlertExportError])
         | Recording \<Rightarrow>
             (if awaiting s = AwaitCanPlay then playedUpTo vs i @ [loaded]
              else playedUpTo vs i @ [loaded, PlaybackStarted i])
         | StopPending \<Rightarrow> playedUpTo vs (length vs) @ [StopScheduled]
         | Stopped \<Rightarrow> playedUpTo vs (length vs) @ [StopScheduled, FileDownloaded])"

text \<open>
  What holds of every state of such an export: the log is the one above, and the
  awaited promise, the recorder, the element and the scene index fit together.
\<close>

definition exportInv :: "Scene list \<Rightarrow> export_state \<Rightarrow> bool" where
  "exportInv vs s \<longleftrightarrow>
     validScenes s = vs \<and> vs \<noteq> [] \<and> exportLog s = logOf vs s
     \<and> (case recorder s of
           NotCreated \<Rightarrow>
             videoEl s = NoSource \<and> currentSceneIndex s = 0
             \<and> (awaiting s = AwaitMetadata \<or> awaiting s = NotWaiting)
         | Recording \<Rightarrow>
             currentSceneIndex s < length vs
             \<and> (case awaiting s of
                   AwaitMetadata \<Rightarrow> False
                 | AwaitCanPlay \<Rightarrow>
                     videoEl s = LoadingSrc (selectedVideoUrl (vs ! currentSceneIndex s))
                 | AwaitPlay \<Rightarrow> videoEl s = CanPlay
                 | NotWaiting \<Rightarrow> onendedSet s \<and> (videoEl s = CanPlay \<or> videoEl s = Playing))
         | StopPending \<Rightarrow>
             currentSceneIndex s = length vs \<and> awaiting s = NotWaiting \<and> videoEl s = EndedEl
         | Stopped \<Rightarrow>
             currentSceneIndex s = length vs \<and> awaiting s = NotWaiting \<and> videoEl s = EndedEl)"

section \<open>Properties of the nearest aspect ratio\<close>

lemma closer_fold_first_min:
  "\<exists>i < length (x # xs).
      foldl (closer r) x xs = (x # xs) ! i
    \<and> (\<forall>j < length (x # xs). \<bar>val ((x # xs) ! i) - r\<bar> \<le> \<bar>val ((x # xs) ! j) - r\<bar>)
    \<and> (\<forall>j < i. \<bar>val ((x # xs) ! i) - r\<bar> < \<bar>val ((x # xs) ! j) - r\<bar>)"
proof (induction xs rule: rev_induct)
  case Nil
  then show ?case by simp
next
  case (snoc y ys)
  then obtain i where i: "i < length (x # ys)"
      and eq: "foldl (closer r) x ys = (x # ys) ! i"
      and mn: "\<forall>j < length (x # ys). \<bar>val ((x # ys) ! i) - r\<bar> \<le> \<bar>val ((x # ys) ! j) - r\<bar>"
      and fst: "\<forall>j < i. \<bar>val ((x # ys) ! i) - r\<bar> < \<bar>val ((x # ys) ! j) - r\<bar>"
    by blast
  let ?zs = "x # ys @ [y]"
  have nth_old: "\<And>j. j < length (x # ys) \<Longrightarrow> ?zs ! j = (x # ys) ! j"
    by (metis append_Cons nth_append)
  have nth_new: "?zs ! length (x # ys) = y"
    by (metis append_Cons nth_append_length)
  show ?case
  proof (cases "\<bar>val y - r\<bar> < \<bar>val ((x # ys) ! i) - r\<bar>")
    case True
    have res: "foldl (closer r) x (ys @ [y]) = y"
      using True eq by (simp add: closer_def)
    have "\<forall>j < length ?zs. \<bar>val y - r\<bar> \<le> \<bar>val (?zs ! j) - r\<bar>"
    proof (intro allI impI)
      fix j assume "j < length ?zs"
      then consider "j < length (x # ys)" | "j = length (x # ys)" by fastforce
      then show "\<bar>val y - r\<bar> \<le> \<bar>val (?zs ! j) - r\<bar>"
      proof cases
        case 1
        then show ?thesis using mn True nth_old[OF 1] by fastforce
      next
        case 2
        then show ?thesis using nth_new by simp
      qed
    qed
    moreover have "\<forall>j < length (x # ys). \<bar>val y - r\<bar> < \<bar>val (?zs ! j) - r\<bar>"
    proof (intro allI impI)
      fix j assume j: "j < length (x # ys)"
      then show "\<bar>val y - r\<bar> < \<bar>val (?zs ! j) - r\<bar>"
        using mn True nth_old[OF j] by fastforce
    qed
    ultimately show ?thesis
      using res nth_new by (intro exI[of _ "length (x # ys)"]) simp
  next
    case False
    have res: "foldl (closer r) x (ys @ [y]) = (x # ys) ! i"
      using False eq by (simp add: closer_def)
    have "\<forall>j < length ?zs. \<bar>val (?zs ! i) - r\<bar> \<le> \<bar>val (?zs ! j) - r\<bar>"
    proof (intro allI impI)
      fix j assume "j < length ?zs"
      then consider "j < length (x # ys)" | "j = length (x # ys)" by fastforce
      then show "\<bar>val (?zs ! i) - r\<bar> \<le> \<bar>val (?zs ! j) - r\<bar>"
      proof cases
        case 1
        then show ?thesis using mn nth_old[OF 1] nth_old[OF i] by simp
      next
        case 2
        then show ?thesis using nth_new False nth_old[OF i] by simp
      qed
    qed
    moreover have "\<forall>j < i. \<bar>val (?zs ! i) - r\<bar> < \<bar>val (?zs ! j) - r\<bar>"
    proof (intro allI impI)
      fix j assume j: "j < i"
      then have "j < length (x # ys)" using i by simp
      then show "\<bar>val (?zs ! i) - r\<bar> < \<bar>val (?zs ! j) - r\<bar>"
        using fst j nth_old[OF i] nth_old[of j] by simp
    qed
    ultimately show ?thesis
      using res i nth_old[OF i] by (intro exI[of _ i]) simp
  qed
qed

lemma getClosestAspectRatio_at_1: "getClosestAspectRatio 1 = Some ''1:1''"
  by (simp add: getClosestAspectRatio_def ratios_def closer_def)

lemma getClosestAspectRatio_at_178: "getClosestAspectRatio (178 / 100) = Some ''16:9''"
  by (simp add: getClosestAspectRatio_def ratios_def closer_def)

lemma getClosestAspectRatio_at_half: "getClosestAspectRatio (5 / 10) = Some ''9:16''"
  by (simp add: getClosestAspectRatio_def ratios_def closer_def)


text \<open>
  Claim C4. \<open>getClosestAspectRatio\<close> is a function of its argument alone; it never
  throws; for every ratio \<open>r\<close> it returns the key of the entry of the fixed
  array \<open>1:1 = 1.0, 3:4 = 0.75, 4:3 = 1.33, 9:16 = 0.5625, 16:9 = 1.77\<close> whose value has
  the least absolute difference to \<open>r\<close>, and among several such entries the one met
  first in the array. In particular it maps 1.0 to "1:1", 1.78 to "16:9" and
  0.5 to "9:16".
\<close>

theorem getClosestAspectRatio_first_minimum:
  "map key ratios = [''1:1'', ''3:4'', ''4:3'', ''9:16'', ''16:9'']
   \<and> map val ratios = [1, 75 / 100, 133 / 100, 5625 / 10000, 177 / 100]
   \<and> (\<exists>i < length ratios.
          getClosestAspectRatio r = Some (key (ratios ! i))
        \<and> (\<forall>j < length ratios. \<bar>val (ratios ! i) - r\<bar> \<le> \<bar>val (ratios ! j) - r\<bar>)
        \<and> (\<forall>j < i. \<bar>val (ratios ! i) - r\<bar> < \<bar>val (ratios ! j) - r\<bar>))
   \<and> getClosestAspectRatio 1 = Some ''1:1''
   \<and> getClosestAspectRatio (178 / 100) = Some ''16:9''
   \<and> getClosestAspectRatio (5 / 10) = Some ''9:16''"
proof -
  obtain x xs where split: "ratios = x # xs"
    by (simp add: ratios_def)
  from closer_fold_first_min[of x xs r]
  have "\<exists>i < length ratios.
          getClosestAspectRatio r = Some (key (ratios ! i))
        \<and> (\<forall>j < length ratios. \<bar>val (ratios ! i) - r\<bar> \<le> \<bar>val (ratios ! j) - r\<bar>)
        \<and> (\<forall>j < i. \<bar>val (ratios ! i) - r\<bar> < \<bar>val (ratios ! j) - r\<bar>)"
    unfolding getClosestAspectRatio_def split by auto
  moreover have "map key ratios = [''1:1'', ''3:4'', ''4:3'', ''9:16'', ''16:9'']"
    by (simp add: ratios_def)
  moreover have "map val ratios = [1, 75 / 100, 133 / 100, 5625 / 10000, 177 / 100]"
    by (simp add: ratios_def)
  ultimately show ?thesis
    using getClosestAspectRatio_at_1 getClosestAspectRatio_at_178
      getClosestAspectRatio_at_half by blast
qed

theorem getClosestAspectRatio_first_minimum_witness:
  "\<exists>i < 5. getClosestAspectRatio 2 = Some (key (ratios ! i))
     \<and> \<bar>val (ratios ! i) - 2\<bar> \<le> \<bar>177 / 100 - 2\<bar>"
proof -
  have len: "length ratios = 5" and last: "val (ratios ! 4) = 177 / 100"
    by (simp_all add: ratios_def)
  from getClosestAspectRatio_first_minimum[of 2]
  obtain i where "i < length ratios"
      "getClosestAspectRatio 2 = Some (key (ratios ! i))"
      "\<forall>j < length ratios. \<bar>val (ratios ! i) - 2\<bar> \<le> \<bar>val (ratios ! j) - 2\<bar>"
    by blast
  then show ?thesis using len last by (metis lessI numeral_eq_Suc pred_numeral_simps(3) Suc_numeral semiring_norm(5) less_Suc_eq)
qed


section \<open>Undo, redo and destructive edits\<close>

lemma handleUndo_handleRedo:
  assumes "layers s \<noteq> []"
  shows "layers (handleRedo (handleUndo s)) = layers s"
    and "redoStack (handleRedo (handleUndo s)) = redoStack s"
  using assms by (auto simp: handleUndo_def handleRedo_def Let_def split: list.splits)

lemma handleRedo_empty_stack: "redoStack s = [] \<Longrightarrow> handleRedo s = s"
  by (simp add: handleRedo_def)

lemma handleDeleteLayer_redoStack: "redoStack (handleDeleteLayer i s) = []"
  by (simp add: handleDeleteLayer_def Let_def)

lemma handleDeleteLayer_layers:
  "layers (handleDeleteLayer i s) = filter (\<lambda>l. layer_id l \<noteq> i) (layers s)"
  by (simp add: handleDeleteLayer_def Let_def)

lemma startEraser_cases:
  "startEraser x y s = s
   \<or> (\<exists>l. clickedLayer x y (layers s) = Some l
          \<and> startEraser x y s =
              s\<lparr>layers := filter (\<lambda>k. layer_id k \<noteq> layer_id l) (layers s), redoStack := []\<rparr>)"
  by (cases "clickedLayer x y (layers s)") (simp_all add: startEraser_def)

lemma startSelect_layers: "layers (startSelect x y s) = layers s"
  by (simp add: startSelect_def Let_def split: option.splits)

lemma startMove_layers: "layers (startMove x y s) = layers s"
  by (simp add: startMove_def split: option.splits)

lemma handleStart_layers_changed:
  assumes "layers (handleStart cx cy b s) \<noteq> layers s"
  shows "selectedTool s = Eraser" and "redoStack (handleStart cx cy b s) = []"
proof -
  obtain rect where rect: "canvasRef s = Some rect"
    using assms by (cases "canvasRef s") (auto simp: handleStart_def)
  define s0 where "s0 = (if showLayerMenuMobile s then s\<lparr>showLayerMenuMobile := False\<rparr> else s)"
  have l0: "layers s0 = layers s" by (simp add: s0_def)
  have go: "\<not> zoom s \<le> 1 / 1000" "\<not> isGenerating s" "b \<noteq> 1"
    using assms rect by (auto simp: handleStart_def Let_def split: if_splits)
  define w where "w = toWorld s rect cx cy"
  have hs: "handleStart cx cy b s =
      (case selectedTool s of
         Select \<Rightarrow> startSelect (px w) (py w) s0
       | Hand \<Rightarrow> s0\<lparr>isDraggingRef := True, isDragging := True,
                    dragStartRef := Some \<lparr>px = cx, py = cy\<rparr>,
                    dragStart := Some \<lparr>px = cx, py = cy\<rparr>\<rparr>
       | Move \<Rightarrow> startMove (px w) (py w) s0
       | Eraser \<Rightarrow> startEraser (px w) (py w) s0
       | Decor \<Rightarrow> s0)"
    using rect go
    by (cases "selectedTool s") (simp_all add: handleStart_def Let_def s0_def w_def)
  show tool: "selectedTool s = Eraser"
    using assms l0 unfolding hs
    by (cases "selectedTool s") (simp_all add: startSelect_layers startMove_layers)
  have er: "handleStart cx cy b s = startEraser (px w) (py w) s0"
    using hs tool by simp
  from startEraser_cases[of "px w" "py w" s0] assms l0 er
  show "redoStack (handleStart cx cy b s) = []"
    by auto
qed

text \<open>
  Claim C5. On a non-empty layer list, undo followed at once by redo gives back the
  same list of layers (equal as values, so the same ids in the same order with the same
  fields) and the same redo stack. After deleting a layer the redo stack is empty and a
  redo leaves the layers as they are. A press that removes a layer is a press of the
  eraser tool; after it the redo stack is empty and a redo leaves the layers as they are.
\<close>

theorem undo_redo_and_destructive_edits:
  "(layers s \<noteq> [] \<longrightarrow>
      layers (handleRedo (handleUndo s)) = layers s
    \<and> redoStack (handleRedo (handleUndo s)) = redoStack s)
   \<and> redoStack (handleDeleteLayer i s) = []
   \<and> layers (handleDeleteLayer i s) = filter (\<lambda>l. layer_id l \<noteq> i) (layers s)
   \<and> layers (handleRedo (handleDeleteLayer i s)) = layers (handleDeleteLayer i s)
   \<and> (layers (handleStart cx cy b s) \<noteq> layers s \<longrightarrow>
        selectedTool s = Eraser
      \<and> redoStack (handleStart cx cy b s) = []
      \<and> layers (handleRedo (handleStart cx cy b s)) = layers (handleStart cx cy b s))"
proof -
  have "layers (handleRedo (handleDeleteLayer i s)) = layers (handleDeleteLayer i s)"
    using handleRedo_empty_stack[OF handleDeleteLayer_redoStack] by simp
  moreover have "layers (handleRedo (handleStart cx cy b s)) = layers (handleStart cx cy b s)"
    if "layers (handleStart cx cy b s) \<noteq> layers s"
    using handleRedo_empty_stack[OF handleStart_layers_changed(2)[OF that]] by simp
  ultimately show ?thesis
    using handleUndo_handleRedo handleDeleteLayer_redoStack handleDeleteLayer_layers
      handleStart_layers_changed by blast
qed


lemma press_eraser_twoLayers:
  "handleStart 50 50 0 (idleState\<lparr>layers := twoLayers, selectedTool := Eraser\<rparr>)
   = idleState\<lparr>layers := [imageLayer ''top'' 0 0 100 100], selectedTool := Eraser\<rparr>"
  by (simp add: handleStart_def idleState_def twoLayers_def toWorld_def startEraser_def
      clickedLayer_def layerHit_def imageLayer_def Let_def)

lemma press_move_twoLayers:
  "handleStart 50 50 0 (idleState\<lparr>layers := twoLayers, selectedTool := Move\<rparr>)
   = idleState\<lparr>layers := twoLayers, selectedTool := Move, isDraggingLayerRef := True,
       draggingLayerId := Some ''bottom'', selectedLayerIds := [''bottom''],
       layerDragOffset := Some \<lparr>px = 50, py = 50\<rparr>\<rparr>"
  by (simp add: handleStart_def idleState_def twoLayers_def toWorld_def startMove_def
      clickedLayer_def layerHit_def imageLayer_def Let_def)

theorem undo_redo_and_destructive_edits_witness:
  "layers (idleState\<lparr>layers := twoLayers, selectedTool := Eraser\<rparr>) \<noteq> []
   \<and> layers (handleRedo (handleUndo (idleState\<lparr>layers := twoLayers, selectedTool := Eraser\<rparr>)))
       = twoLayers
   \<and> layers (handleStart 50 50 0 (idleState\<lparr>layers := twoLayers, selectedTool := Eraser\<rparr>))
       \<noteq> twoLayers
   \<and> redoStack (handleStart 50 50 0 (idleState\<lparr>layers := twoLayers, selectedTool := Eraser\<rparr>))
       = []
   \<and> layers (handleRedo (handleStart 50 50 0
         (idleState\<lparr>layers := twoLayers, selectedTool := Eraser\<rparr>)))
       = [imageLayer ''top'' 0 0 100 100]"
proof -
  let ?s = "idleState\<lparr>layers := twoLayers, selectedTool := Eraser\<rparr>"
  have ne: "layers ?s \<noteq> []" by (simp add: twoLayers_def)
  have ch: "layers (handleStart 50 50 0 ?s) \<noteq> layers ?s"
    unfolding press_eraser_twoLayers by (simp add: twoLayers_def)
  from undo_redo_and_destructive_edits[of ?s "''none''" 50 50 0] ne ch
  show ?thesis unfolding press_eraser_twoLayers by simp
qed


section \<open>Which layer a press picks\<close>

text \<open>
  The scan runs over the reversed list, so among the layers that contain the point it
  returns the one with the greatest index: every layer after it in the list misses.
\<close>

lemma clickedLayer_is_last_hit:
  "clickedLayer x y ls = Some l \<Longrightarrow>
     \<exists>before after. ls = before @ l # after \<and> layerHit x y l
        \<and> (\<forall>k \<in> set after. \<not> layerHit x y k)"
proof (induction ls rule: rev_induct)
  case Nil
  then show ?case by (simp add: clickedLayer_def)
next
  case (snoc a ls)
  show ?case
  proof (cases "layerHit x y a")
    case True
    with snoc.prems have "l = a" by (simp add: clickedLayer_def)
    with True show ?thesis by (intro exI[of _ ls] exI[of _ "[]"]) simp
  next
    case False
    with snoc.prems have "clickedLayer x y ls = Some l" by (simp add: clickedLayer_def)
    from snoc.IH[OF this] obtain before after where
      "ls = before @ l # after" "layerHit x y l" "\<forall>k \<in> set after. \<not> layerHit x y k"
      by blast
    with False show ?thesis
      by (intro exI[of _ before] exI[of _ "after @ [a]"]) auto
  qed
qed

text \<open>
  Claim C3. The claim asks that a press of the move or the eraser tool on a point inside
  several visible, unlocked layers picks the topmost one, index 0 of the list being the
  topmost. Evaluated on two such layers, \<open>top\<close> at index 0 and \<open>bottom\<close> at index 1,
  both covering the point (50, 50): the move tool starts dragging \<open>bottom\<close>, and the
  eraser removes \<open>bottom\<close> and keeps \<open>top\<close>.
\<close>

theorem press_on_overlap_picks_index_1:
  "map layer_id twoLayers = [''top'', ''bottom'']
   \<and> list_all (layerHit 50 50) twoLayers
   \<and> draggingLayerId (handleStart 50 50 0 (idleState\<lparr>layers := twoLayers, selectedTool := Move\<rparr>))
       = Some ''bottom''
   \<and> map layer_id
        (layers (handleStart 50 50 0 (idleState\<lparr>layers := twoLayers, selectedTool := Eraser\<rparr>)))
       = [''top'']"
  unfolding press_eraser_twoLayers press_move_twoLayers
  by (simp add: twoLayers_def imageLayer_def layerHit_def)


section \<open>Zooming about a point\<close>

lemma clampZoom_bounds: "5 / 100 \<le> clampZoom z" "clampZoom z \<le> 5"
  by (simp_all add: clampZoom_def)

lemma toClient_toWorld:
  "zoom s \<noteq> 0 \<Longrightarrow> toClient s rect (toWorld s rect cx cy) = \<lparr>px = cx, py = cy\<rparr>"
  by (simp add: toClient_def toWorld_def)

lemma handleWheel_step:
  assumes "canvasRef s = Some rect" "zoom s \<noteq> 0" "\<not> \<bar>deltaY\<bar> < 1 / 1000"
  shows "handleWheel deltaY cx cy s =
           Some (s\<lparr>zoom := clampZoom (zoom s * exp (- deltaY * (1 / 1000))),
                   canvasOffset :=
                     \<lparr>px = cx - rect_left rect
                            - px (toWorld s rect cx cy) * clampZoom (zoom s * exp (- deltaY * (1 / 1000))),
                      py = cy - rect_top rect
                            - py (toWorld s rect cx cy) * clampZoom (zoom s * exp (- deltaY * (1 / 1000)))\<rparr>\<rparr>)"
  using assms by (simp add: handleWheel_def Let_def toWorld_def)

lemma handleTouchMove_pinch:
  assumes "canvasRef s = Some rect" "zoom s \<noteq> 0"
    and "lastTouchDist s = Some d" "d \<noteq> 0" "lastTouchCenter s = Some c"
  shows "handleTouchMove [t0, t1] s =
           Some (s\<lparr>zoom := clampZoom (zoom s * (getTouchDistance t0 t1 / d)),
                   canvasOffset :=
                     \<lparr>px = px (getTouchCenter t0 t1) - rect_left rect
                            - px (toWorld s rect (px c) (py c))
                              * clampZoom (zoom s * (getTouchDistance t0 t1 / d)),
                      py = py (getTouchCenter t0 t1) - rect_top rect
                            - py (toWorld s rect (px c) (py c))
                              * clampZoom (zoom s * (getTouchDistance t0 t1 / d))\<rparr>,
                   lastTouchDist := Some (getTouchDistance t0 t1),
                   lastTouchCenter := Some (getTouchCenter t0 t1)\<rparr>)"
  using assms by (simp add: handleTouchMove_def pinchStep_def Let_def toWorld_def)


lemma sqrt_10000: "sqrt 10000 = 100"
  by (rule real_sqrt_unique) simp_all

lemma pinchState_eq:
  "pinchState = idleState\<lparr>lastTouchDist := Some 100, lastTouchCenter := Some \<lparr>px = 100, py = 100\<rparr>\<rparr>"
  by (simp add: pinchState_def handleTouchStart_def getTouchDistance_def getTouchCenter_def
      idleState_def sqrt_10000)

lemma pinch_slide_right:
  "handleTouchMove [\<lparr>px = 100, py = 100\<rparr>, \<lparr>px = 200, py = 100\<rparr>] pinchState
   = Some (pinchState\<lparr>zoom := 1, canvasOffset := \<lparr>px = 50, py = 0\<rparr>,
                      lastTouchDist := Some 100,
                      lastTouchCenter := Some \<lparr>px = 150, py = 100\<rparr>\<rparr>)"
  unfolding pinchState_eq
  by (simp add: handleTouchMove_def pinchStep_def getTouchDistance_def getTouchCenter_def
      idleState_def sqrt_10000 clampZoom_def Let_def)

text \<open>
  Claim C1, as the code has it. Let the canvas be mounted and the zoom not zero.
  A wheel event whose \<open>|deltaY|\<close> is at least 0.001 (a smaller one is ignored) sets the
  zoom to \<open>oldZoom * exp(-deltaY * 0.001)\<close> clamped to [0.05, 5], and the world point
  that was under the cursor is under the cursor afterwards. A two-finger move with a
  previous distance other than zero sets the zoom to
  \<open>oldZoom * currentDistance / previousDistance\<close> clamped to [0.05, 5], and the world point
  that was under the previous midpoint of the fingers is under their current midpoint
  afterwards: it keeps its screen position only when the midpoint has not moved.
\<close>

theorem zoom_step_clamped_and_anchored:
  assumes "canvasRef s = Some rect" and "zoom s \<noteq> 0"
  shows "(\<not> \<bar>deltaY\<bar> < 1 / 1000 \<longrightarrow>
            (\<exists>s'. handleWheel deltaY cx cy s = Some s'
                \<and> zoom s' = min (max (5 / 100) (zoom s * exp (- deltaY * (1 / 1000)))) 5
                \<and> 5 / 100 \<le> zoom s' \<and> zoom s' \<le> 5
                \<and> toClient s rect (toWorld s rect cx cy) = \<lparr>px = cx, py = cy\<rparr>
                \<and> toClient s' rect (toWorld s rect cx cy) = \<lparr>px = cx, py = cy\<rparr>))
       \<and> (lastTouchDist s = Some d \<and> d \<noteq> 0 \<and> lastTouchCenter s = Some c \<longrightarrow>
            (\<exists>s'. handleTouchMove [t0, t1] s = Some s'
                \<and> zoom s' = min (max (5 / 100) (zoom s * (getTouchDistance t0 t1 / d))) 5
                \<and> 5 / 100 \<le> zoom s' \<and> zoom s' \<le> 5
                \<and> toClient s rect (toWorld s rect (px c) (py c)) = c
                \<and> toClient s' rect (toWorld s rect (px c) (py c)) = getTouchCenter t0 t1))"
proof (intro conjI impI)
  assume big: "\<not> \<bar>deltaY\<bar> < 1 / 1000"
  let ?z = "clampZoom (zoom s * exp (- deltaY * (1 / 1000)))"
  let ?w = "toWorld s rect cx cy"
  let ?s' = "s\<lparr>zoom := ?z,
               canvasOffset := \<lparr>px = cx - rect_left rect - px ?w * ?z,
                                py = cy - rect_top rect - py ?w * ?z\<rparr>\<rparr>"
  have "handleWheel deltaY cx cy s = Some ?s'"
    using handleWheel_step[OF assms big] .
  moreover have "zoom ?s' = min (max (5 / 100) (zoom s * exp (- deltaY * (1 / 1000)))) 5"
    by (simp add: clampZoom_def)
  moreover have "5 / 100 \<le> zoom ?s'" "zoom ?s' \<le> 5"
    using clampZoom_bounds by simp_all
  moreover have "toClient s rect ?w = \<lparr>px = cx, py = cy\<rparr>"
    using toClient_toWorld[OF assms(2)] .
  moreover have "toClient ?s' rect ?w = \<lparr>px = cx, py = cy\<rparr>"
    by (simp add: toClient_def)
  ultimately show "\<exists>s'. handleWheel deltaY cx cy s = Some s'
                \<and> zoom s' = min (max (5 / 100) (zoom s * exp (- deltaY * (1 / 1000)))) 5
                \<and> 5 / 100 \<le> zoom s' \<and> zoom s' \<le> 5
                \<and> toClient s rect (toWorld s rect cx cy) = \<lparr>px = cx, py = cy\<rparr>
                \<and> toClient s' rect (toWorld s rect cx cy) = \<lparr>px = cx, py = cy\<rparr>"
    by blast
next
  assume pinch: "lastTouchDist s = Some d \<and> d \<noteq> 0 \<and> lastTouchCenter s = Some c"
  let ?z = "clampZoom (zoom s * (getTouchDistance t0 t1 / d))"
  let ?w = "toWorld s rect (px c) (py c)"
  let ?m = "getTouchCenter t0 t1"
  let ?s' = "s\<lparr>zoom := ?z,
               canvasOffset := \<lparr>px = px ?m - rect_left rect - px ?w * ?z,
                                py = py ?m - rect_top rect - py ?w * ?z\<rparr>,
               lastTouchDist := Some (getTouchDistance t0 t1),
               lastTouchCenter := Some ?m\<rparr>"
  have "handleTouchMove [t0, t1] s = Some ?s'"
    using handleTouchMove_pinch[OF assms, of d c t0 t1] pinch by simp
  moreover have "zoom ?s' = min (max (5 / 100) (zoom s * (getTouchDistance t0 t1 / d))) 5"
    by (simp add: clampZoom_def)
  moreover have "5 / 100 \<le> zoom ?s'" "zoom ?s' \<le> 5"
    using clampZoom_bounds by simp_all
  moreover have "toClient s rect ?w = c"
    using toClient_toWorld[OF assms(2), of rect "px c" "py c"] by simp
  moreover have "toClient ?s' rect ?w = ?m"
    by (simp add: toClient_def)
  ultimately show "\<exists>s'. handleTouchMove [t0, t1] s = Some s'
                \<and> zoom s' = min (max (5 / 100) (zoom s * (getTouchDistance t0 t1 / d))) 5
                \<and> 5 / 100 \<le> zoom s' \<and> zoom s' \<le> 5
                \<and> toClient s rect (toWorld s rect (px c) (py c)) = c
                \<and> toClient s' rect (toWorld s rect (px c) (py c)) = getTouchCenter t0 t1"
    by blast
qed

theorem zoom_step_clamped_and_anchored_witness:
  "canvasRef pinchState = Some \<lparr>rect_left = 0, rect_top = 0\<rparr> \<and> zoom pinchState \<noteq> 0
   \<and> \<not> \<bar>100 :: real\<bar> < 1 / 1000
   \<and> lastTouchDist pinchState = Some 100 \<and> (100 :: real) \<noteq> 0
   \<and> lastTouchCenter pinchState = Some \<lparr>px = 100, py = 100\<rparr>
   \<and> (\<exists>s'. handleWheel 100 30 40 pinchState = Some s'
          \<and> zoom s' = min (max (5 / 100) (1 * exp (- 100 * (1 / 1000)))) 5
          \<and> toClient s' \<lparr>rect_left = 0, rect_top = 0\<rparr> \<lparr>px = 30, py = 40\<rparr> = \<lparr>px = 30, py = 40\<rparr>)
   \<and> (\<exists>s'. handleTouchMove [\<lparr>px = 100, py = 100\<rparr>, \<lparr>px = 200, py = 100\<rparr>] pinchState = Some s'
          \<and> 5 / 100 \<le> zoom s' \<and> zoom s' \<le> 5
          \<and> toClient s' \<lparr>rect_left = 0, rect_top = 0\<rparr> \<lparr>px = 100, py = 100\<rparr>
              = \<lparr>px = 150, py = 100\<rparr>)"
proof -
  let ?r = "\<lparr>rect_left = 0, rect_top = 0\<rparr>"
  have h1: "canvasRef pinchState = Some ?r" and h2: "zoom pinchState \<noteq> 0"
    and h3: "lastTouchDist pinchState = Some 100"
    and h4: "lastTouchCenter pinchState = Some \<lparr>px = 100, py = 100\<rparr>"
    and z: "zoom pinchState = 1"
    by (simp_all add: pinchState_eq idleState_def)
  have w1: "toWorld pinchState ?r 30 40 = \<lparr>px = 30, py = 40\<rparr>"
    and w2: "toWorld pinchState ?r 100 100 = \<lparr>px = 100, py = 100\<rparr>"
    by (simp_all add: toWorld_def pinchState_eq idleState_def)
  have m: "getTouchCenter \<lparr>px = 100, py = 100\<rparr> \<lparr>px = 200, py = 100\<rparr> = \<lparr>px = 150, py = 100\<rparr>"
    by (simp add: getTouchCenter_def)
  from zoom_step_clamped_and_anchored[OF h1 h2, of 100 30 40 100 "\<lparr>px = 100, py = 100\<rparr>"
      "\<lparr>px = 100, py = 100\<rparr>" "\<lparr>px = 200, py = 100\<rparr>"] h3 h4
  have "(\<exists>s'. handleWheel 100 30 40 pinchState = Some s'
          \<and> zoom s' = min (max (5 / 100) (1 * exp (- 100 * (1 / 1000)))) 5
          \<and> toClient s' ?r \<lparr>px = 30, py = 40\<rparr> = \<lparr>px = 30, py = 40\<rparr>)"
    and "(\<exists>s'. handleTouchMove [\<lparr>px = 100, py = 100\<rparr>, \<lparr>px = 200, py = 100\<rparr>] pinchState = Some s'
          \<and> 5 / 100 \<le> zoom s' \<and> zoom s' \<le> 5
          \<and> toClient s' ?r \<lparr>px = 100, py = 100\<rparr> = \<lparr>px = 150, py = 100\<rparr>)"
    by (auto simp: w1 w2 m z)
  then show ?thesis using h1 h2 h3 h4 by simp
qed

text \<open>
  Against C1 as stated. The fingers of \<open>pinchState\<close> slide 50 pixels to the right
  without changing their distance. The world point (100, 100) was under the midpoint
  (100, 100) before the step; after it the point is drawn at (150, 100).
\<close>

theorem pinch_anchor_counterexample:
  "lastTouchCenter pinchState = Some \<lparr>px = 100, py = 100\<rparr>
   \<and> toWorld pinchState \<lparr>rect_left = 0, rect_top = 0\<rparr> 100 100 = \<lparr>px = 100, py = 100\<rparr>
   \<and> handleTouchMove [\<lparr>px = 100, py = 100\<rparr>, \<lparr>px = 200, py = 100\<rparr>] pinchState
       = Some (pinchState\<lparr>zoom := 1, canvasOffset := \<lparr>px = 50, py = 0\<rparr>,
                          lastTouchDist := Some 100,
                          lastTouchCenter := Some \<lparr>px = 150, py = 100\<rparr>\<rparr>)
   \<and> toClient (pinchState\<lparr>zoom := 1, canvasOffset := \<lparr>px = 50, py = 0\<rparr>,
                          lastTouchDist := Some 100,
                          lastTouchCenter := Some \<lparr>px = 150, py = 100\<rparr>\<rparr>)
         \<lparr>rect_left = 0, rect_top = 0\<rparr> \<lparr>px = 100, py = 100\<rparr>
       = \<lparr>px = 150, py = 100\<rparr>
   \<and> \<lparr>px = 150, py = 100\<rparr> \<noteq> \<lparr>px = 100 :: real, py = 100 :: real\<rparr>"
  using pinch_slide_right
  by (simp add: pinchState_eq idleState_def toWorld_def toClient_def)


section \<open>Snapping a selection drag to an aspect ratio\<close>

lemma bestStep_pair:
  "bestStep c (b0, m0) r =
     (if \<bar>res_ratio r - c\<bar> < m0 then (r, \<bar>res_ratio r - c\<bar>) else (b0, m0))"
  by (simp add: bestStep_def)

lemma bestStep_foldl:
  assumes "foldl (bestStep c) (b0, m0) rs = (b, m)"
  shows "(\<forall>r \<in> set rs. m \<le> \<bar>res_ratio r - c\<bar>)
       \<and> ((b = b0 \<and> m = m0 \<and> (\<forall>r \<in> set rs. m0 \<le> \<bar>res_ratio r - c\<bar>))
          \<or> (\<exists>i < length rs. b = rs ! i \<and> m = \<bar>res_ratio (rs ! i) - c\<bar> \<and> m < m0
                \<and> (\<forall>j < i. m < \<bar>res_ratio (rs ! j) - c\<bar>)))"
  using assms
proof (induction rs arbitrary: b0 m0)
  case Nil
  then show ?case by simp
next
  case (Cons r rs)
  let ?d = "\<bar>res_ratio r - c\<bar>"
  show ?case
  proof (cases "?d < m0")
    case True
    then have "foldl (bestStep c) (r, ?d) rs = (b, m)"
      using Cons.prems by (simp add: bestStep_pair)
    from Cons.IH[OF this]
    have low: "\<forall>k \<in> set rs. m \<le> \<bar>res_ratio k - c\<bar>"
      and alt: "(b = r \<and> m = ?d \<and> (\<forall>k \<in> set rs. ?d \<le> \<bar>res_ratio k - c\<bar>))
          \<or> (\<exists>i < length rs. b = rs ! i \<and> m = \<bar>res_ratio (rs ! i) - c\<bar> \<and> m < ?d
                \<and> (\<forall>j < i. m < \<bar>res_ratio (rs ! j) - c\<bar>))"
      by blast+
    from alt show ?thesis
    proof
      assume keep: "b = r \<and> m = ?d \<and> (\<forall>k \<in> set rs. ?d \<le> \<bar>res_ratio k - c\<bar>)"
      then have "\<exists>i < length (r # rs). b = (r # rs) ! i \<and> m = \<bar>res_ratio ((r # rs) ! i) - c\<bar>
            \<and> m < m0 \<and> (\<forall>j < i. m < \<bar>res_ratio ((r # rs) ! j) - c\<bar>)"
        using True by (intro exI[of _ 0]) simp
      then show ?thesis using keep by auto
    next
      assume "\<exists>i < length rs. b = rs ! i \<and> m = \<bar>res_ratio (rs ! i) - c\<bar> \<and> m < ?d
                \<and> (\<forall>j < i. m < \<bar>res_ratio (rs ! j) - c\<bar>)"
      then obtain i where i: "i < length rs" "b = rs ! i" "m = \<bar>res_ratio (rs ! i) - c\<bar>"
          "m < ?d" "\<forall>j < i. m < \<bar>res_ratio (rs ! j) - c\<bar>"
        by blast
      have "\<forall>j < Suc i. m < \<bar>res_ratio ((r # rs) ! j) - c\<bar>"
      proof (intro allI impI)
        fix j assume "j < Suc i"
        then show "m < \<bar>res_ratio ((r # rs) ! j) - c\<bar>"
          using i(4,5) by (cases j) simp_all
      qed
      then have "\<exists>k < length (r # rs). b = (r # rs) ! k \<and> m = \<bar>res_ratio ((r # rs) ! k) - c\<bar>
            \<and> m < m0 \<and> (\<forall>j < k. m < \<bar>res_ratio ((r # rs) ! j) - c\<bar>)"
        using i True by (intro exI[of _ "Suc i"]) simp
      moreover have "\<forall>k \<in> set (r # rs). m \<le> \<bar>res_ratio k - c\<bar>"
        using low i(4) by simp
      ultimately show ?thesis by blast
    qed
  next
    case False
    then have "foldl (bestStep c) (b0, m0) rs = (b, m)"
      using Cons.prems by (simp add: bestStep_pair)
    from Cons.IH[OF this]
    have low: "\<forall>k \<in> set rs. m \<le> \<bar>res_ratio k - c\<bar>"
      and alt: "(b = b0 \<and> m = m0 \<and> (\<forall>k \<in> set rs. m0 \<le> \<bar>res_ratio k - c\<bar>))
          \<or> (\<exists>i < length rs. b = rs ! i \<and> m = \<bar>res_ratio (rs ! i) - c\<bar> \<and> m < m0
                \<and> (\<forall>j < i. m < \<bar>res_ratio (rs ! j) - c\<bar>))"
      by blast+
    from alt show ?thesis
    proof
      assume "b = b0 \<and> m = m0 \<and> (\<forall>k \<in> set rs. m0 \<le> \<bar>res_ratio k - c\<bar>)"
      then show ?thesis using False by auto
    next
      assume "\<exists>i < length rs. b = rs ! i \<and> m = \<bar>res_ratio (rs ! i) - c\<bar> \<and> m < m0
                \<and> (\<forall>j < i. m < \<bar>res_ratio (rs ! j) - c\<bar>)"
      then obtain i where i: "i < length rs" "b = rs ! i" "m = \<bar>res_ratio (rs ! i) - c\<bar>"
          "m < m0" "\<forall>j < i. m < \<bar>res_ratio (rs ! j) - c\<bar>"
        by blast
      have "\<forall>j < Suc i. m < \<bar>res_ratio ((r # rs) ! j) - c\<bar>"
      proof (intro allI impI)
        fix j assume "j < Suc i"
        then show "m < \<bar>res_ratio ((r # rs) ! j) - c\<bar>"
          using i(4,5) False by (cases j) simp_all
      qed
      then have "\<exists>k < length (r # rs). b = (r # rs) ! k \<and> m = \<bar>res_ratio ((r # rs) ! k) - c\<bar>
            \<and> m < m0 \<and> (\<forall>j < k. m < \<bar>res_ratio ((r # rs) ! j) - c\<bar>)"
        using i by (intro exI[of _ "Suc i"]) simp
      moreover have "\<forall>k \<in> set (r # rs). m \<le> \<bar>res_ratio k - c\<bar>"
        using low i(4) False by simp
      ultimately show ?thesis by blast
    qed
  qed
qed

text \<open>\<open>bestRes\<close> is a candidate, whatever the ratios are.\<close>

lemma bestRes_in_set: "rs \<noteq> [] \<Longrightarrow> bestRes rs c \<in> set rs"
proof -
  assume ne: "rs \<noteq> []"
  then obtain r0 rest where rs: "rs = r0 # rest" by (cases rs) auto
  obtain b m where f: "foldl (bestStep c) (r0, MAX_VALUE) rs = (b, m)"
    by (cases "foldl (bestStep c) (r0, MAX_VALUE) rs")
  have b: "bestRes rs c = b"
    using f by (simp add: bestRes_def rs)
  from bestStep_foldl[OF f] have "b = r0 \<or> (\<exists>i < length rs. b = rs ! i)"
    by blast
  then show ?thesis
  proof
    assume "b = r0"
    then show ?thesis unfolding b by (simp add: rs)
  next
    assume "\<exists>i < length rs. b = rs ! i"
    then show ?thesis unfolding b using nth_mem by blast
  qed
qed

text \<open>
  When some candidate is closer to the raw ratio than \<open>Number.MAX_VALUE\<close>, \<open>bestRes\<close>
  is the first candidate of least distance.
\<close>

lemma bestRes_first_min:
  assumes "\<exists>r \<in> set rs. \<bar>res_ratio r - c\<bar> < MAX_VALUE"
  shows "\<exists>i < length rs. bestRes rs c = rs ! i
           \<and> (\<forall>r \<in> set rs. \<bar>res_ratio (rs ! i) - c\<bar> \<le> \<bar>res_ratio r - c\<bar>)
           \<and> (\<forall>j < i. \<bar>res_ratio (rs ! i) - c\<bar> < \<bar>res_ratio (rs ! j) - c\<bar>)"
proof -
  from assms obtain r0 rest where rs: "rs = r0 # rest" by (cases rs) auto
  obtain b m where f: "foldl (bestStep c) (r0, MAX_VALUE) rs = (b, m)"
    by (cases "foldl (bestStep c) (r0, MAX_VALUE) rs")
  have b: "bestRes rs c = b"
    using f by (simp add: bestRes_def rs)
  from bestStep_foldl[OF f] assms
  have low: "\<forall>r \<in> set rs. m \<le> \<bar>res_ratio r - c\<bar>"
    and "\<exists>i < length rs. b = rs ! i \<and> m = \<bar>res_ratio (rs ! i) - c\<bar> \<and> m < MAX_VALUE
                \<and> (\<forall>j < i. m < \<bar>res_ratio (rs ! j) - c\<bar>)"
    by (blast, fastforce)
  then show ?thesis unfolding b by blast
qed

lemma resolutionsOf_nonempty: "resolutionsOf avail \<noteq> []"
  by (simp add: resolutionsOf_def)

lemma resolutionsOf_empty: "resolutionsOf [] = [defaultResolution]"
  by (simp add: resolutionsOf_def)

lemma resolutionsOf_ratio:
  "\<forall>r \<in> set avail. P (res_ratio r) \<Longrightarrow> P 1 \<Longrightarrow> \<forall>r \<in> set (resolutionsOf avail). P (res_ratio r)"
  by (simp add: resolutionsOf_def defaultResolution_def)

text \<open>A move while a new selection is being dragged runs the select branch.\<close>

lemma handleMove_selecting:
  assumes "selectedTool s = Select" "isDraggingRef s" "dragStartRef s = Some start"
    and "\<not> isDraggingSelectionRef s" "\<not> isMiddlePanning s" "canvasRef s = Some rect"
  shows "handleMove cx cy s = moveSelect cx cy start rect s"
  using assms by (simp add: handleMove_def layerDragGuard_def selectionDragGuard_def)


lemma moveSelect_result:
  fixes s :: canvas_state and start :: point and rect :: dom_rect and cx cy :: real
  defines "cur \<equiv> toWorld s rect cx cy"
  defines "rawW \<equiv> \<bar>px cur - px start\<bar>" and "rawH \<equiv> \<bar>py cur - py start\<bar>"
  defines "c \<equiv> currentRatioOf rawW rawH"
  defines "m \<equiv> bestRes (resolutionsOf (availableResolutions s)) c"
  defines "w \<equiv> (if c > res_ratio m then rawH * res_ratio m else rawW)"
    and "h \<equiv> (if c > res_ratio m then rawH else rawW / res_ratio m)"
  assumes "zoom s \<noteq> 0" and "res_ratio m \<noteq> 0"
  shows "moveSelect cx cy start rect s =
           Some (s\<lparr>selection :=
                    Some \<lparr>sel_x = (if px cur < px start then px start - w else px start),
                          sel_y = (if py cur < py start then py start - h else py start),
                          sel_w = w, sel_h = h\<rparr>\<rparr>)"
  using assms(8,9)
  unfolding moveSelect_def snapSize_def Let_def cur_def rawW_def rawH_def c_def m_def w_def h_def
  by simp

lemma MAX_VALUE_large: "1000 < MAX_VALUE"
proof -
  have "(2::real) ^ 10 \<le> 2 ^ 1023" by (rule power_increasing) simp_all
  moreover have "(1::real) \<le> 2 - 1 / 2 ^ 52" by simp
  ultimately have "1 * (2::real) ^ 10 \<le> (2 - 1 / 2 ^ 52) * 2 ^ 1023"
    by (intro mult_mono) simp_all
  then show ?thesis by (simp add: MAX_VALUE_def)
qed

lemma handleEnd_selection:
  "selection (handleEnd t) =
     (if selectedTool t = Select then commitSelection (selection t) else selection t)"
  by (simp add: handleEnd_def Let_def)

lemma dragFromOrigin_eq:
  "dragFromOrigin =
     idleState\<lparr>availableResolutions := squareAndWide, isDraggingRef := True, isDragging := True,
       dragStartRef := Some \<lparr>px = 0, py = 0\<rparr>, dragStart := Some \<lparr>px = 0, py = 0\<rparr>,
       selection := None\<rparr>"
  by (simp add: dragFromOrigin_def handleStart_def idleState_def toWorld_def startSelect_def
      Let_def)

lemma dragNoResolutions_eq:
  "dragNoResolutions =
     idleState\<lparr>isDraggingRef := True, isDragging := True,
       dragStartRef := Some \<lparr>px = 0, py = 0\<rparr>, dragStart := Some \<lparr>px = 0, py = 0\<rparr>,
       selection := None\<rparr>"
  by (simp add: dragNoResolutions_def handleStart_def idleState_def toWorld_def startSelect_def
      Let_def)

lemma bestRes_squareAndWide_2:
  "bestRes squareAndWide 2
   = \<lparr>res_w = 1344, res_h = 768, res_ratio = 178 / 100, res_label = Some ''16:9''\<rparr>"
  using MAX_VALUE_large by (simp add: bestRes_def squareAndWide_def bestStep_pair)

lemma bestRes_squareAndWide_0:
  "bestRes squareAndWide 0
   = \<lparr>res_w = 1024, res_h = 1024, res_ratio = 1, res_label = Some ''1:1''\<rparr>"
  using MAX_VALUE_large by (simp add: bestRes_def squareAndWide_def bestStep_pair)

lemma bestRes_default_1: "bestRes [defaultResolution] 1 = defaultResolution"
  using MAX_VALUE_large by (simp add: bestRes_def defaultResolution_def bestStep_pair)

lemma bestRes_single: "bestRes [r] c = r"
  by (simp add: bestRes_def bestStep_def Let_def)

lemma dragNegativeRatio_eq:
  "dragNegativeRatio =
     idleState\<lparr>availableResolutions :=
         [\<lparr>res_w = 1024, res_h = 1024, res_ratio = - 1, res_label = None\<rparr>],
       isDraggingRef := True, isDragging := True,
       dragStartRef := Some \<lparr>px = 0, py = 0\<rparr>, dragStart := Some \<lparr>px = 0, py = 0\<rparr>,
       selection := None\<rparr>"
  by (simp add: dragNegativeRatio_def handleStart_def idleState_def toWorld_def startSelect_def
      Let_def)

lemma dragZeroRatio_eq:
  "dragZeroRatio =
     idleState\<lparr>availableResolutions :=
         [\<lparr>res_w = 1024, res_h = 1024, res_ratio = 0, res_label = None\<rparr>],
       isDraggingRef := True, isDragging := True,
       dragStartRef := Some \<lparr>px = 0, py = 0\<rparr>, dragStart := Some \<lparr>px = 0, py = 0\<rparr>,
       selection := None\<rparr>"
  by (simp add: dragZeroRatio_def handleStart_def idleState_def toWorld_def startSelect_def
      Let_def)

lemma resolutionsOf_squareAndWide: "resolutionsOf squareAndWide = squareAndWide"
  by (simp add: resolutionsOf_def squareAndWide_def)

lemma move_300_150:
  "handleMove 300 150 dragFromOrigin
   = Some (dragFromOrigin\<lparr>selection := Some \<lparr>sel_x = 0, sel_y = 0, sel_w = 267, sel_h = 150\<rparr>\<rparr>)"
proof -
  have "handleMove 300 150 dragFromOrigin
        = moveSelect 300 150 \<lparr>px = 0, py = 0\<rparr> \<lparr>rect_left = 0, rect_top = 0\<rparr> dragFromOrigin"
    by (rule handleMove_selecting) (simp_all add: dragFromOrigin_eq idleState_def)
  also have "\<dots> = Some (dragFromOrigin\<lparr>selection :=
                 Some \<lparr>sel_x = 0, sel_y = 0, sel_w = 267, sel_h = 150\<rparr>\<rparr>)"
    by (simp add: moveSelect_def dragFromOrigin_eq idleState_def toWorld_def Let_def
        resolutionsOf_squareAndWide currentRatioOf_def bestRes_squareAndWide_2 snapSize_def)
  finally show ?thesis .
qed

lemma move_0_100:
  "handleMove 0 100 dragFromOrigin
   = Some (dragFromOrigin\<lparr>selection := Some \<lparr>sel_x = 0, sel_y = 0, sel_w = 0, sel_h = 0\<rparr>\<rparr>)"
proof -
  have "handleMove 0 100 dragFromOrigin
        = moveSelect 0 100 \<lparr>px = 0, py = 0\<rparr> \<lparr>rect_left = 0, rect_top = 0\<rparr> dragFromOrigin"
    by (rule handleMove_selecting) (simp_all add: dragFromOrigin_eq idleState_def)
  also have "\<dots> = Some (dragFromOrigin\<lparr>selection :=
                 Some \<lparr>sel_x = 0, sel_y = 0, sel_w = 0, sel_h = 0\<rparr>\<rparr>)"
    by (simp add: moveSelect_def dragFromOrigin_eq idleState_def toWorld_def Let_def
        resolutionsOf_squareAndWide currentRatioOf_def bestRes_squareAndWide_0 snapSize_def)
  finally show ?thesis .
qed

lemma move_100_0_default:
  "handleMove 100 0 dragNoResolutions
   = Some (dragNoResolutions\<lparr>selection :=
             Some \<lparr>sel_x = 0, sel_y = 0, sel_w = 100, sel_h = 100\<rparr>\<rparr>)"
proof -
  have "handleMove 100 0 dragNoResolutions
        = moveSelect 100 0 \<lparr>px = 0, py = 0\<rparr> \<lparr>rect_left = 0, rect_top = 0\<rparr> dragNoResolutions"
    by (rule handleMove_selecting) (simp_all add: dragNoResolutions_eq idleState_def)
  also have "\<dots> = Some (dragNoResolutions\<lparr>selection :=
                 Some \<lparr>sel_x = 0, sel_y = 0, sel_w = 100, sel_h = 100\<rparr>\<rparr>)"
    by (simp add: moveSelect_def dragNoResolutions_eq idleState_def toWorld_def Let_def
        resolutionsOf_def currentRatioOf_def bestRes_default_1 snapSize_def)
       (simp add: defaultResolution_def)
  finally show ?thesis .
qed


text \<open>
  Claim C2, as the code has it. While a new selection is dragged with the select tool
  (canvas mounted, zoom not zero, no candidate ratio zero, some candidate within
  \<open>Number.MAX_VALUE\<close> of the raw ratio), each move sets a selection whose width is its
  height times the ratio of the matched entry, so \<open>width / height\<close> is that ratio
  whenever the height is not zero. The matched entry is a candidate of least
  \<open>|entry.ratio - rawRatio|\<close>, the candidates being \<open>availableResolutions\<close>, or the
  default 1:1 entry when that list is empty, and \<open>rawRatio\<close> being \<open>rawW / rawH\<close>, or 1
  when \<open>rawH\<close> is zero. If \<open>rawRatio > matched.ratio\<close> then \<open>height = rawH\<close> and
  \<open>width = height * matched.ratio\<close>, else \<open>width = rawW\<close> and
  \<open>height = width / matched.ratio\<close>. On release with the select tool, a selection with
  \<open>w < 10\<close> or \<open>h < 10\<close> becomes null and any other selection stays as it is.
\<close>

theorem selection_drag_snaps_to_matched_ratio:
  fixes s t :: canvas_state and start :: point and rect :: dom_rect and cx cy :: real
  defines "cur \<equiv> toWorld s rect cx cy"
  defines "rawW \<equiv> \<bar>px cur - px start\<bar>" and "rawH \<equiv> \<bar>py cur - py start\<bar>"
  defines "cands \<equiv> resolutionsOf (availableResolutions s)"
  defines "c \<equiv> (if rawH = 0 then 1 else rawW / rawH)"
  defines "m \<equiv> bestRes cands c"
  assumes "selectedTool s = Select" and "isDraggingRef s" and "dragStartRef s = Some start"
    and "\<not> isDraggingSelectionRef s" and "\<not> isMiddlePanning s" and "canvasRef s = Some rect"
    and "zoom s \<noteq> 0"
    and "\<forall>r \<in> set (availableResolutions s). res_ratio r \<noteq> 0"
    and "\<exists>r \<in> set cands. \<bar>res_ratio r - c\<bar> < MAX_VALUE"
  shows "(\<exists>s' sel. handleMove cx cy s = Some s' \<and> selection s' = Some sel
            \<and> m \<in> set cands
            \<and> (\<forall>r \<in> set cands. \<bar>res_ratio m - c\<bar> \<le> \<bar>res_ratio r - c\<bar>)
            \<and> sel_w sel = sel_h sel * res_ratio m
            \<and> (sel_h sel \<noteq> 0 \<longrightarrow> sel_w sel / sel_h sel = res_ratio m)
            \<and> (if c > res_ratio m
                then sel_h sel = rawH \<and> sel_w sel = sel_h sel * res_ratio m
                else sel_w sel = rawW \<and> sel_h sel = sel_w sel / res_ratio m))
       \<and> (selectedTool t = Select \<longrightarrow>
            selection (handleEnd t) =
              (case selection t of
                 None \<Rightarrow> None
               | Some r \<Rightarrow> if sel_w r < 10 \<or> sel_h r < 10 then None else Some r))"
proof -
  have c: "c = currentRatioOf rawW rawH"
    by (simp add: c_def currentRatioOf_def)
  have mem: "m \<in> set cands"
    unfolding m_def cands_def by (rule bestRes_in_set[OF resolutionsOf_nonempty])
  have "\<forall>r \<in> set cands. res_ratio r \<noteq> 0"
    unfolding cands_def using assms(14) by (rule resolutionsOf_ratio) simp
  with mem have mnz: "res_ratio m \<noteq> 0" by blast
  from bestRes_first_min[OF assms(15)]
  obtain i where "bestRes cands c = cands ! i"
      "\<forall>r \<in> set cands. \<bar>res_ratio (cands ! i) - c\<bar> \<le> \<bar>res_ratio r - c\<bar>"
    by blast
  then have least: "\<forall>r \<in> set cands. \<bar>res_ratio m - c\<bar> \<le> \<bar>res_ratio r - c\<bar>"
    unfolding m_def by simp
  define w where "w = (if c > res_ratio m then rawH * res_ratio m else rawW)"
  define h where "h = (if c > res_ratio m then rawH else rawW / res_ratio m)"
  define sel where
    "sel = \<lparr>sel_x = (if px cur < px start then px start - w else px start),
            sel_y = (if py cur < py start then py start - h else py start),
            sel_w = w, sel_h = h\<rparr>"
  have "handleMove cx cy s = moveSelect cx cy start rect s"
    using assms(7-12) by (rule handleMove_selecting)
  also have "\<dots> = Some (s\<lparr>selection := Some sel\<rparr>)"
    using moveSelect_result[of s rect cx cy start] assms(13) mnz
    unfolding sel_def w_def h_def m_def cands_def c cur_def rawW_def rawH_def
    by simp
  finally have run: "handleMove cx cy s = Some (s\<lparr>selection := Some sel\<rparr>)" .
  have wh: "sel_w sel = sel_h sel * res_ratio m"
    using mnz by (simp add: sel_def w_def h_def)
  have quot: "sel_h sel \<noteq> 0 \<longrightarrow> sel_w sel / sel_h sel = res_ratio m"
    using wh by simp
  have branch: "(if c > res_ratio m
                then sel_h sel = rawH \<and> sel_w sel = sel_h sel * res_ratio m
                else sel_w sel = rawW \<and> sel_h sel = sel_w sel / res_ratio m)"
    by (simp add: sel_def w_def h_def)
  have release: "selectedTool t = Select \<longrightarrow>
            selection (handleEnd t) =
              (case selection t of
                 None \<Rightarrow> None
               | Some r \<Rightarrow> if sel_w r < 10 \<or> sel_h r < 10 then None else Some r)"
    by (simp add: handleEnd_selection commitSelection_def)
  have "\<exists>s' sel. handleMove cx cy s = Some s' \<and> selection s' = Some sel
            \<and> m \<in> set cands
            \<and> (\<forall>r \<in> set cands. \<bar>res_ratio m - c\<bar> \<le> \<bar>res_ratio r - c\<bar>)
            \<and> sel_w sel = sel_h sel * res_ratio m
            \<and> (sel_h sel \<noteq> 0 \<longrightarrow> sel_w sel / sel_h sel = res_ratio m)
            \<and> (if c > res_ratio m
                then sel_h sel = rawH \<and> sel_w sel = sel_h sel * res_ratio m
                else sel_w sel = rawW \<and> sel_h sel = sel_w sel / res_ratio m)"
    using run mem least wh quot branch
    by (intro exI[of _ "s\<lparr>selection := Some sel\<rparr>"] exI[of _ sel]) simp
  with release show ?thesis by blast
qed


lemma dragFromOrigin_fields:
  "selectedTool dragFromOrigin = Select" "isDraggingRef dragFromOrigin"
  "dragStartRef dragFromOrigin = Some \<lparr>px = 0, py = 0\<rparr>"
  "\<not> isDraggingSelectionRef dragFromOrigin" "\<not> isMiddlePanning dragFromOrigin"
  "canvasRef dragFromOrigin = Some \<lparr>rect_left = 0, rect_top = 0\<rparr>"
  "zoom dragFromOrigin = 1" "availableResolutions dragFromOrigin = squareAndWide"
  by (simp_all add: dragFromOrigin_eq idleState_def)

lemma dragNoResolutions_fields:
  "selectedTool dragNoResolutions = Select" "isDraggingRef dragNoResolutions"
  "dragStartRef dragNoResolutions = Some \<lparr>px = 0, py = 0\<rparr>"
  "\<not> isDraggingSelectionRef dragNoResolutions" "\<not> isMiddlePanning dragNoResolutions"
  "canvasRef dragNoResolutions = Some \<lparr>rect_left = 0, rect_top = 0\<rparr>"
  "zoom dragNoResolutions = 1" "availableResolutions dragNoResolutions = []"
  by (simp_all add: dragNoResolutions_eq idleState_def)

theorem selection_drag_snaps_to_matched_ratio_witness:
  "selectedTool dragFromOrigin = Select \<and> isDraggingRef dragFromOrigin
   \<and> dragStartRef dragFromOrigin = Some \<lparr>px = 0, py = 0\<rparr>
   \<and> \<not> isDraggingSelectionRef dragFromOrigin \<and> \<not> isMiddlePanning dragFromOrigin
   \<and> canvasRef dragFromOrigin = Some \<lparr>rect_left = 0, rect_top = 0\<rparr>
   \<and> zoom dragFromOrigin \<noteq> 0
   \<and> map res_ratio (availableResolutions dragFromOrigin) = [1, 178 / 100]
   \<and> \<bar>1 - 2 :: real\<bar> < MAX_VALUE
   \<and> (\<exists>s' sel. handleMove 300 150 dragFromOrigin = Some s' \<and> selection s' = Some sel
          \<and> sel_w sel = sel_h sel * (178 / 100) \<and> sel_h sel = 150)
   \<and> selection (handleEnd (dragFromOrigin\<lparr>selection :=
          Some \<lparr>sel_x = 0, sel_y = 0, sel_w = 5, sel_h = 150\<rparr>\<rparr>)) = None"
proof -
  let ?p = "\<lparr>px = 0, py = 0\<rparr>" and ?r = "\<lparr>rect_left = 0, rect_top = 0\<rparr>"
  let ?t = "dragFromOrigin\<lparr>selection := Some \<lparr>sel_x = 0, sel_y = 0, sel_w = 5, sel_h = 150\<rparr>\<rparr>"
  have w: "toWorld dragFromOrigin ?r 300 150 = \<lparr>px = 300, py = 150\<rparr>"
    by (simp add: toWorld_def dragFromOrigin_eq idleState_def)
  have nz: "\<forall>r \<in> set (availableResolutions dragFromOrigin). res_ratio r \<noteq> 0"
    by (simp add: dragFromOrigin_fields squareAndWide_def)
  have fin: "\<exists>r \<in> set squareAndWide. \<bar>res_ratio r - 2\<bar> < MAX_VALUE"
    using MAX_VALUE_large by (simp add: squareAndWide_def)
  have t: "selectedTool ?t = Select" by (simp add: dragFromOrigin_fields)
  from selection_drag_snaps_to_matched_ratio[where s = dragFromOrigin and start = ?p
      and rect = ?r and cx = 300 and cy = 150 and t = ?t] nz fin t
  have "(\<exists>s' sel. handleMove 300 150 dragFromOrigin = Some s' \<and> selection s' = Some sel
          \<and> sel_w sel = sel_h sel * (178 / 100) \<and> sel_h sel = 150)
      \<and> selection (handleEnd ?t) = None"
    by (simp add: dragFromOrigin_fields w resolutionsOf_squareAndWide bestRes_squareAndWide_2)
      blast
  moreover have "map res_ratio (availableResolutions dragFromOrigin) = [1, 178 / 100]"
    by (simp add: dragFromOrigin_fields squareAndWide_def)
  moreover have "\<bar>1 - 2 :: real\<bar> < MAX_VALUE"
    using MAX_VALUE_large by simp
  ultimately show ?thesis by (simp add: dragFromOrigin_fields)
qed

text \<open>
  Against C2 as stated. With the candidates 1:1 and 16:9 (1.78), a drag of raw extent
  300 by 150 gives a selection of 267 by 150: the smaller raw dimension is kept and the
  larger one, 300, is a side of nothing. A drag straight down, of raw extent 0 by 100,
  gives the selection 0 by 0, which has no ratio and keeps neither raw dimension.
\<close>

theorem selection_drag_counterexample:
  "toWorld dragFromOrigin \<lparr>rect_left = 0, rect_top = 0\<rparr> 300 150 = \<lparr>px = 300, py = 150\<rparr>
   \<and> handleMove 300 150 dragFromOrigin
       = Some (dragFromOrigin\<lparr>selection :=
                 Some \<lparr>sel_x = 0, sel_y = 0, sel_w = 267, sel_h = 150\<rparr>\<rparr>)
   \<and> (267 :: real) \<noteq> max 300 150 \<and> (150 :: real) \<noteq> max 300 150
   \<and> toWorld dragFromOrigin \<lparr>rect_left = 0, rect_top = 0\<rparr> 0 100 = \<lparr>px = 0, py = 100\<rparr>
   \<and> handleMove 0 100 dragFromOrigin
       = Some (dragFromOrigin\<lparr>selection :=
                 Some \<lparr>sel_x = 0, sel_y = 0, sel_w = 0, sel_h = 0\<rparr>\<rparr>)"
  using move_300_150 move_0_100
  by (simp add: toWorld_def dragFromOrigin_eq idleState_def)

text \<open>
  Claim C10, as the code has it. While a new selection is dragged with the select
  tool, on a mounted canvas with a zoom other than zero and candidate ratios that are
  all positive, every move event yields a selection: no division by zero is reached,
  and its width and height are not negative. A raw height of zero makes the raw ratio 1,
  and an empty \<open>availableResolutions\<close> makes the matched entry the default 1024 by 1024
  entry of ratio 1. The two guards alone do not give this: the quotient
  \<open>newW / bestRes.ratio\<close> has no guard, so the candidate ratios must be positive.
\<close>

theorem selection_drag_snap_is_total:
  fixes s :: canvas_state and start :: point and rect :: dom_rect and cx cy :: real
  defines "cur \<equiv> toWorld s rect cx cy"
  defines "rawW \<equiv> \<bar>px cur - px start\<bar>" and "rawH \<equiv> \<bar>py cur - py start\<bar>"
  defines "m \<equiv> bestRes (resolutionsOf (availableResolutions s)) (currentRatioOf rawW rawH)"
  assumes "selectedTool s = Select" and "isDraggingRef s" and "dragStartRef s = Some start"
    and "\<not> isDraggingSelectionRef s" and "\<not> isMiddlePanning s" and "canvasRef s = Some rect"
    and "zoom s \<noteq> 0"
    and "\<forall>r \<in> set (availableResolutions s). 0 < res_ratio r"
  shows "(\<exists>s' sel. handleMove cx cy s = Some s' \<and> selection s' = Some sel
            \<and> 0 \<le> sel_w sel \<and> 0 \<le> sel_h sel
            \<and> sel_w sel = sel_h sel * res_ratio m)
       \<and> 0 < res_ratio m
       \<and> (rawH = 0 \<longrightarrow> currentRatioOf rawW rawH = 1)
       \<and> (rawH \<noteq> 0 \<longrightarrow> currentRatioOf rawW rawH = rawW / rawH)
       \<and> (availableResolutions s = [] \<longrightarrow>
            m = \<lparr>res_w = 1024, res_h = 1024, res_ratio = 1, res_label = None\<rparr>)"
proof -
  let ?c = "currentRatioOf rawW rawH"
  have mem: "m \<in> set (resolutionsOf (availableResolutions s))"
    unfolding m_def by (rule bestRes_in_set[OF resolutionsOf_nonempty])
  have "\<forall>r \<in> set (resolutionsOf (availableResolutions s)). 0 < res_ratio r"
    using assms(12) by (rule resolutionsOf_ratio) simp
  with mem have pos: "0 < res_ratio m" by blast
  have raw: "0 \<le> rawW" "0 \<le> rawH" by (simp_all add: rawW_def rawH_def)
  define w where "w = (if ?c > res_ratio m then rawH * res_ratio m else rawW)"
  define h where "h = (if ?c > res_ratio m then rawH else rawW / res_ratio m)"
  define sel where
    "sel = \<lparr>sel_x = (if px cur < px start then px start - w else px start),
            sel_y = (if py cur < py start then py start - h else py start),
            sel_w = w, sel_h = h\<rparr>"
  have "handleMove cx cy s = moveSelect cx cy start rect s"
    using assms(5-10) by (rule handleMove_selecting)
  also have "\<dots> = Some (s\<lparr>selection := Some sel\<rparr>)"
    using moveSelect_result[of s rect cx cy start] assms(11) pos
    unfolding sel_def w_def h_def m_def cur_def rawW_def rawH_def
    by simp
  finally have run: "handleMove cx cy s = Some (s\<lparr>selection := Some sel\<rparr>)" .
  have "0 \<le> w" "0 \<le> h"
    using raw pos by (simp_all add: w_def h_def)
  then have nonneg: "0 \<le> sel_w sel" "0 \<le> sel_h sel"
    by (simp_all add: sel_def)
  have wh: "sel_w sel = sel_h sel * res_ratio m"
    using pos by (simp add: sel_def w_def h_def)
  have ex: "\<exists>s' sel. handleMove cx cy s = Some s' \<and> selection s' = Some sel
            \<and> 0 \<le> sel_w sel \<and> 0 \<le> sel_h sel
            \<and> sel_w sel = sel_h sel * res_ratio m"
    using run nonneg wh
    by (intro exI[of _ "s\<lparr>selection := Some sel\<rparr>"] exI[of _ sel]) simp
  have dflt: "availableResolutions s = [] \<longrightarrow>
            m = \<lparr>res_w = 1024, res_h = 1024, res_ratio = 1, res_label = None\<rparr>"
    using mem by (auto simp: resolutionsOf_empty defaultResolution_def)
  have "(rawH = 0 \<longrightarrow> ?c = 1) \<and> (rawH \<noteq> 0 \<longrightarrow> ?c = rawW / rawH)"
    by (simp add: currentRatioOf_def)
  with ex pos dflt show ?thesis by blast
qed

theorem selection_drag_snap_is_total_witness:
  "selectedTool dragNoResolutions = Select \<and> isDraggingRef dragNoResolutions
   \<and> dragStartRef dragNoResolutions = Some \<lparr>px = 0, py = 0\<rparr>
   \<and> \<not> isDraggingSelectionRef dragNoResolutions \<and> \<not> isMiddlePanning dragNoResolutions
   \<and> canvasRef dragNoResolutions = Some \<lparr>rect_left = 0, rect_top = 0\<rparr>
   \<and> zoom dragNoResolutions \<noteq> 0
   \<and> availableResolutions dragNoResolutions = []
   \<and> \<bar>py (toWorld dragNoResolutions \<lparr>rect_left = 0, rect_top = 0\<rparr> 100 0) - 0\<bar> = 0
   \<and> (\<exists>s' sel. handleMove 100 0 dragNoResolutions = Some s' \<and> selection s' = Some sel
          \<and> 0 \<le> sel_w sel \<and> 0 \<le> sel_h sel \<and> sel_w sel = sel_h sel * 1)"
proof -
  let ?p = "\<lparr>px = 0, py = 0\<rparr>" and ?r = "\<lparr>rect_left = 0, rect_top = 0\<rparr>"
  have w: "toWorld dragNoResolutions ?r 100 0 = \<lparr>px = 100, py = 0\<rparr>"
    by (simp add: toWorld_def dragNoResolutions_eq idleState_def)
  from selection_drag_snap_is_total[where s = dragNoResolutions and start = ?p
      and rect = ?r and cx = 100 and cy = 0]
  have "\<exists>s' sel. handleMove 100 0 dragNoResolutions = Some s' \<and> selection s' = Some sel
          \<and> 0 \<le> sel_w sel \<and> 0 \<le> sel_h sel \<and> sel_w sel = sel_h sel * 1"
    by (simp add: dragNoResolutions_fields w) (metis mult.right_neutral Resolution.select_convs(3))
  then show ?thesis by (simp add: dragNoResolutions_fields w)
qed


text \<open>
  Against C10 as stated. With the single candidate of ratio \<open>-1\<close>, a drag of raw extent
  100 by 50 gives a selection of width \<open>-50\<close>. With the single candidate of ratio 0, a
  drag straight down, of raw extent 0 by 100, reaches the quotient of 0 by 0: the model
  has no selection for it, and the program stores a height that is not a number.
\<close>

theorem unguarded_ratio_counterexample:
  "selectedTool dragNegativeRatio = Select \<and> isDraggingRef dragNegativeRatio
   \<and> dragStartRef dragNegativeRatio = Some \<lparr>px = 0, py = 0\<rparr>
   \<and> zoom dragNegativeRatio = 1
   \<and> map res_ratio (availableResolutions dragNegativeRatio) = [- 1]
   \<and> handleMove 100 50 dragNegativeRatio
       = Some (dragNegativeRatio\<lparr>selection :=
                 Some \<lparr>sel_x = 0, sel_y = 0, sel_w = - 50, sel_h = 50\<rparr>\<rparr>)
   \<and> (- 50 :: real) < 0
   \<and> selectedTool dragZeroRatio = Select \<and> isDraggingRef dragZeroRatio
   \<and> dragStartRef dragZeroRatio = Some \<lparr>px = 0, py = 0\<rparr>
   \<and> zoom dragZeroRatio = 1
   \<and> map res_ratio (availableResolutions dragZeroRatio) = [0]
   \<and> currentRatioOf 0 100 = 0
   \<and> snapSize 0 100 0 (bestRes (availableResolutions dragZeroRatio) 0) = None
   \<and> handleMove 0 100 dragZeroRatio = None"
proof -
  have neg: "handleMove 100 50 dragNegativeRatio
       = Some (dragNegativeRatio\<lparr>selection :=
                 Some \<lparr>sel_x = 0, sel_y = 0, sel_w = - 50, sel_h = 50\<rparr>\<rparr>)"
  proof -
    have "handleMove 100 50 dragNegativeRatio
          = moveSelect 100 50 \<lparr>px = 0, py = 0\<rparr> \<lparr>rect_left = 0, rect_top = 0\<rparr>
              dragNegativeRatio"
      by (rule handleMove_selecting) (simp_all add: dragNegativeRatio_eq idleState_def)
    also have "\<dots> = Some (dragNegativeRatio\<lparr>selection :=
                   Some \<lparr>sel_x = 0, sel_y = 0, sel_w = - 50, sel_h = 50\<rparr>\<rparr>)"
      by (simp add: moveSelect_def dragNegativeRatio_eq idleState_def toWorld_def Let_def
          resolutionsOf_def currentRatioOf_def bestRes_single snapSize_def)
    finally show ?thesis .
  qed
  have zero: "handleMove 0 100 dragZeroRatio = None"
  proof -
    have "handleMove 0 100 dragZeroRatio
          = moveSelect 0 100 \<lparr>px = 0, py = 0\<rparr> \<lparr>rect_left = 0, rect_top = 0\<rparr> dragZeroRatio"
      by (rule handleMove_selecting) (simp_all add: dragZeroRatio_eq idleState_def)
    also have "\<dots> = None"
      by (simp add: moveSelect_def dragZeroRatio_eq idleState_def toWorld_def Let_def
          resolutionsOf_def currentRatioOf_def bestRes_single snapSize_def)
    finally show ?thesis .
  qed
  show ?thesis
    unfolding neg zero
    by (simp add: dragNegativeRatio_eq dragZeroRatio_eq idleState_def currentRatioOf_def
        bestRes_single snapSize_def)
qed


section \<open>Dragging the selection along one axis\<close>

lemma press_inside_selection:
  assumes "selectedTool s = Select" "selection s = Some sel0" "canvasRef s = Some rect"
    and "\<not> zoom s \<le> 1 / 1000" "\<not> isGenerating s" "b \<noteq> 1"
    and "insideSelection (px (toWorld s rect cx cy)) (py (toWorld s rect cx cy)) sel0"
  shows "dragInv sel0 (toWorld s rect cx cy) rect (handleStart cx cy b s)"
    and "dragAxisRef (handleStart cx cy b s) = None"
    and "selection (handleStart cx cy b s) = Some sel0"
  using assms
  by (simp_all add: handleStart_def startSelect_def Let_def dragInv_def)

lemma handleMove_dragInv_eq:
  assumes "dragInv sel0 st rect s"
  shows "handleMove mx my s =
           moveSelectionDrag mx my st \<lparr>px = sel_x sel0, py = sel_y sel0\<rparr> rect s"
  using assms
  by (auto simp: dragInv_def handleMove_def layerDragGuard_def selectionDragGuard_def)

lemma moveSelectionDrag_free:
  assumes "zoom s \<noteq> 0" "dragAxisRef s = None"
  shows "moveSelectionDrag mx my st init rect s =
     (let dx = px (toWorld s rect mx my) - px st;
          dy = py (toWorld s rect mx my) - py st
      in if \<bar>dx\<bar> > 5 \<or> \<bar>dy\<bar> > 5
         then if \<bar>dx\<bar> > \<bar>dy\<bar>
              then Some (s\<lparr>dragAxisRef := Some Horizontal,
                     selection := map_option (\<lambda>p. p\<lparr>sel_x := px init + dx, sel_y := py init\<rparr>)
                                    (selection s)\<rparr>)
              else Some (s\<lparr>dragAxisRef := Some Vertical,
                     selection := map_option (\<lambda>p. p\<lparr>sel_x := px init, sel_y := py init + dy\<rparr>)
                                    (selection s)\<rparr>)
         else Some s)"
  using assms by (simp add: moveSelectionDrag_def Let_def)

lemma moveSelectionDrag_locked:
  assumes "zoom s \<noteq> 0" "dragAxisRef s = Some a"
  shows "moveSelectionDrag mx my st init rect s =
     (let dx = px (toWorld s rect mx my) - px st;
          dy = py (toWorld s rect mx my) - py st
      in Some (s\<lparr>dragAxisRef := Some a,
           selection :=
             map_option (\<lambda>p. p\<lparr>sel_x := (if a = Horizontal then px init + dx else px init),
                                sel_y := (if a = Horizontal then py init else py init + dy)\<rparr>)
               (selection s)\<rparr>))"
  using assms by (simp add: moveSelectionDrag_def Let_def)

lemma handleMove_dragInv:
  assumes "dragInv sel0 st rect s"
  shows "\<exists>s'. handleMove mx my s = Some s' \<and> dragInv sel0 st rect s'
            \<and> (\<forall>a. dragAxisRef s = Some a \<longrightarrow> dragAxisRef s' = Some a)"
proof (cases "dragAxisRef s")
  case None
  have z: "zoom s \<noteq> 0" using assms by (simp add: dragInv_def)
  show ?thesis
    unfolding handleMove_dragInv_eq[OF assms] moveSelectionDrag_free[OF z None]
    using assms None by (auto simp: dragInv_def Let_def)
next
  case (Some a)
  have z: "zoom s \<noteq> 0" using assms by (simp add: dragInv_def)
  show ?thesis
    unfolding handleMove_dragInv_eq[OF assms] moveSelectionDrag_locked[OF z Some]
    using assms Some by (cases a) (auto simp: dragInv_def Let_def)
qed


lemma clampZoom_nonzero: "clampZoom z \<noteq> 0"
  using clampZoom_bounds(1)[of z] by simp

lemma handleWheel_dragInv:
  assumes "dragInv sel0 st rect s"
  shows "\<exists>s'. handleWheel deltaY mx my s = Some s' \<and> dragInv sel0 st rect s'
            \<and> dragAxisRef s' = dragAxisRef s"
proof (cases "\<bar>deltaY\<bar> < 1 / 1000")
  case True
  then have "handleWheel deltaY mx my s = Some s"
    using assms by (simp add: handleWheel_def dragInv_def)
  then show ?thesis using assms by simp
next
  case False
  have c: "canvasRef s = Some rect" and z: "zoom s \<noteq> 0"
    using assms by (simp_all add: dragInv_def)
  show ?thesis
    unfolding handleWheel_step[OF c z False]
    using assms clampZoom_nonzero by (simp add: dragInv_def)
qed

lemma pinch_dragInv:
  assumes "dragInv sel0 st rect s"
  shows "\<exists>s'. handleTouchMove [t0, t1] s = Some s' \<and> dragInv sel0 st rect s'
            \<and> dragAxisRef s' = dragAxisRef s"
proof -
  have c: "canvasRef s = Some rect" and z: "zoom s \<noteq> 0"
    using assms by (simp_all add: dragInv_def)
  consider (idle) "handleTouchMove [t0, t1] s = Some s"
    | (step) d m where "lastTouchDist s = Some d" "d \<noteq> 0" "lastTouchCenter s = Some m"
  proof (cases "lastTouchDist s")
    case None
    then show ?thesis using that(1) by (simp add: handleTouchMove_def)
  next
    case (Some d)
    show ?thesis
    proof (cases "d = 0 \<or> lastTouchCenter s = None")
      case True
      then show ?thesis using that(1) Some by (auto simp: handleTouchMove_def)
    next
      case False
      then show ?thesis using that(2) Some by auto
    qed
  qed
  then show ?thesis
  proof cases
    case idle
    then show ?thesis using assms by simp
  next
    case step
    show ?thesis
      unfolding handleTouchMove_pinch[OF c z step]
      using assms clampZoom_nonzero by (simp add: dragInv_def)
  qed
qed

lemma handleTouchMove_dragInv:
  assumes "dragInv sel0 st rect s"
  shows "\<exists>s'. handleTouchMove ts s = Some s' \<and> dragInv sel0 st rect s'
            \<and> (\<forall>a. dragAxisRef s = Some a \<longrightarrow> dragAxisRef s' = Some a)"
proof -
  consider "ts = []" | t where "ts = [t]" | t0 t1 where "ts = [t0, t1]"
    | t0 t1 t2 rest where "ts = t0 # t1 # t2 # rest"
    by (metis list.exhaust)
  then show ?thesis
  proof cases
    case 1
    then show ?thesis using assms by (simp add: handleTouchMove_def)
  next
    case 2
    then show ?thesis
      using handleMove_dragInv[OF assms, of "px t" "py t"] by (simp add: handleTouchMove_def)
  next
    case 3
    then show ?thesis using pinch_dragInv[OF assms, of t0 t1] by auto
  next
    case 4
    then show ?thesis using assms by (simp add: handleTouchMove_def)
  qed
qed

lemma dispatch_dragInv:
  assumes "dragInv sel0 st rect s"
  shows "\<exists>s'. dispatch e s = Some s' \<and> dragInv sel0 st rect s'
            \<and> (\<forall>a. dragAxisRef s = Some a \<longrightarrow> dragAxisRef s' = Some a)"
proof (cases e)
  case (MouseMove mx my)
  then show ?thesis using handleMove_dragInv[OF assms, of mx my] by simp
next
  case (TouchMove ts)
  then show ?thesis using handleTouchMove_dragInv[OF assms, of ts] by simp
next
  case (Wheel d mx my)
  then show ?thesis using handleWheel_dragInv[OF assms, of d mx my] by auto
qed

lemma runEvents_dragInv:
  assumes "dragInv sel0 st rect s"
  shows "\<exists>s'. runEvents es s = Some s' \<and> dragInv sel0 st rect s'
            \<and> (\<forall>a. dragAxisRef s = Some a \<longrightarrow> dragAxisRef s' = Some a)"
  using assms
proof (induction es arbitrary: s)
  case Nil
  then show ?case by simp
next
  case (Cons e es)
  from dispatch_dragInv[OF Cons.prems, of e] obtain s1 where
    s1: "dispatch e s = Some s1" "dragInv sel0 st rect s1"
      "\<forall>a. dragAxisRef s = Some a \<longrightarrow> dragAxisRef s1 = Some a"
    by blast
  from Cons.IH[OF s1(2)] obtain s2 where
    s2: "runEvents es s1 = Some s2" "dragInv sel0 st rect s2"
      "\<forall>a. dragAxisRef s1 = Some a \<longrightarrow> dragAxisRef s2 = Some a"
    by blast
  show ?case using s1 s2 by simp
qed

lemma dragInv_selection:
  assumes "dragInv sel0 st rect s"
  shows "\<exists>sel. selection s = Some sel \<and> sel_w sel = sel_w sel0 \<and> sel_h sel = sel_h sel0
           \<and> (dragAxisRef s = None \<longrightarrow> sel = sel0)
           \<and> (dragAxisRef s = Some Horizontal \<longrightarrow> sel_y sel = sel_y sel0)
           \<and> (dragAxisRef s = Some Vertical \<longrightarrow> sel_x sel = sel_x sel0)"
  using assms by (auto simp: dragInv_def)

lemma handleMove_deadzone:
  assumes "dragInv sel0 st rect s" "dragAxisRef s = None"
  shows "\<exists>s'. handleMove mx my s = Some s'
          \<and> (if \<bar>px (toWorld s rect mx my) - px st\<bar> > 5 \<or> \<bar>py (toWorld s rect mx my) - py st\<bar> > 5
              then dragAxisRef s' =
                     Some (if \<bar>px (toWorld s rect mx my) - px st\<bar> > \<bar>py (toWorld s rect mx my) - py st\<bar>
                           then Horizontal else Vertical)
              else s' = s)"
proof -
  have z: "zoom s \<noteq> 0" using assms by (simp add: dragInv_def)
  show ?thesis
    unfolding handleMove_dragInv_eq[OF assms(1)] moveSelectionDrag_free[OF z assms(2)]
    by (simp add: Let_def)
qed


lemma pressInside_eq:
  "pressInside =
     zoomedOut\<lparr>isDraggingSelectionRef := True,
       selectionDragStartRef := Some \<lparr>px = 20, py = 20\<rparr>,
       initialSelectionPosRef := Some \<lparr>px = 0, py = 0\<rparr>,
       dragAxisRef := None\<rparr>"
  by (simp add: pressInside_def zoomedOut_def handleStart_def idleState_def toWorld_def
      startSelect_def insideSelection_def Let_def)

lemma move_3_pixels:
  "handleMove 13 10 pressInside
   = Some (pressInside\<lparr>dragAxisRef := Some Horizontal,
             selection := Some \<lparr>sel_x = 6, sel_y = 0, sel_w = 100, sel_h = 100\<rparr>\<rparr>)"
  by (simp add: pressInside_eq zoomedOut_def idleState_def handleMove_def layerDragGuard_def
      selectionDragGuard_def moveSelectionDrag_def toWorld_def Let_def)

text \<open>
  Claim C8, as the code has it. Let the select tool be pressed inside the selection
  \<open>sel0\<close> (canvas mounted, zoom above 0.001, no generation running, not the middle
  button). Then any moves, touch moves and wheel events that follow are all handled,
  and after them the selection has the width and height of \<open>sel0\<close>. While no axis is
  locked the selection is \<open>sel0\<close> itself, and a move locks an axis exactly when the
  pointer is more than 5 world units (5 times the zoom in screen pixels) from the press
  point along x or along y: horizontal if \<open>|dx| > |dy|\<close>, vertical otherwise. A locked
  axis stays locked under all later events; with the horizontal axis locked the
  selection keeps its initial y, with the vertical axis locked its initial x.
\<close>

theorem selection_drag_axis_locked:
  assumes "selectedTool s = Select" and "selection s = Some sel0"
    and "canvasRef s = Some rect" and "\<not> zoom s \<le> 1 / 1000" and "\<not> isGenerating s"
    and "b \<noteq> 1"
    and "insideSelection (px (toWorld s rect cx cy)) (py (toWorld s rect cx cy)) sel0"
  shows "\<exists>s1 s2 sel1 sel2.
            runEvents es (handleStart cx cy b s) = Some s1 \<and> runEvents es' s1 = Some s2
          \<and> selection s1 = Some sel1 \<and> selection s2 = Some sel2
          \<and> sel_w sel2 = sel_w sel0 \<and> sel_h sel2 = sel_h sel0
          \<and> (dragAxisRef s1 = None \<longrightarrow>
                sel1 = sel0
              \<and> (\<forall>mx my. \<exists>s'. handleMove mx my s1 = Some s'
                   \<and> (if \<bar>px (toWorld s1 rect mx my) - px (toWorld s rect cx cy)\<bar> > 5
                          \<or> \<bar>py (toWorld s1 rect mx my) - py (toWorld s rect cx cy)\<bar> > 5
                       then dragAxisRef s' =
                              Some (if \<bar>px (toWorld s1 rect mx my) - px (toWorld s rect cx cy)\<bar>
                                        > \<bar>py (toWorld s1 rect mx my) - py (toWorld s rect cx cy)\<bar>
                                    then Horizontal else Vertical)
                       else s' = s1)))
          \<and> (\<forall>a. dragAxisRef s1 = Some a \<longrightarrow> dragAxisRef s2 = Some a)
          \<and> (dragAxisRef s2 = Some Horizontal \<longrightarrow> sel_y sel2 = sel_y sel0)
          \<and> (dragAxisRef s2 = Some Vertical \<longrightarrow> sel_x sel2 = sel_x sel0)"
proof -
  let ?st = "toWorld s rect cx cy"
  have inv0: "dragInv sel0 ?st rect (handleStart cx cy b s)"
    using assms by (rule press_inside_selection(1))
  from runEvents_dragInv[OF inv0, of es] obtain s1 where
    s1: "runEvents es (handleStart cx cy b s) = Some s1" "dragInv sel0 ?st rect s1"
    by blast
  from runEvents_dragInv[OF s1(2), of es'] obtain s2 where
    s2: "runEvents es' s1 = Some s2" "dragInv sel0 ?st rect s2"
      "\<forall>a. dragAxisRef s1 = Some a \<longrightarrow> dragAxisRef s2 = Some a"
    by blast
  from dragInv_selection[OF s1(2)] obtain sel1 where
    sel1: "selection s1 = Some sel1" "dragAxisRef s1 = None \<longrightarrow> sel1 = sel0"
    by auto
  from dragInv_selection[OF s2(2)] obtain sel2 where
    sel2: "selection s2 = Some sel2" "sel_w sel2 = sel_w sel0" "sel_h sel2 = sel_h sel0"
      "dragAxisRef s2 = Some Horizontal \<longrightarrow> sel_y sel2 = sel_y sel0"
      "dragAxisRef s2 = Some Vertical \<longrightarrow> sel_x sel2 = sel_x sel0"
    by auto
  have dead: "dragAxisRef s1 = None \<longrightarrow>
      (\<forall>mx my. \<exists>s'. handleMove mx my s1 = Some s'
          \<and> (if \<bar>px (toWorld s1 rect mx my) - px ?st\<bar> > 5
                 \<or> \<bar>py (toWorld s1 rect mx my) - py ?st\<bar> > 5
              then dragAxisRef s' =
                     Some (if \<bar>px (toWorld s1 rect mx my) - px ?st\<bar>
                               > \<bar>py (toWorld s1 rect mx my) - py ?st\<bar>
                           then Horizontal else Vertical)
              else s' = s1))"
    using handleMove_deadzone[OF s1(2)] by blast
  show ?thesis
    using s1(1) s2(1,3) sel1 sel2 dead
    by (intro exI[of _ s1] exI[of _ s2] exI[of _ sel1] exI[of _ sel2]) simp
qed

theorem selection_drag_axis_locked_witness:
  "selectedTool zoomedOut = Select
   \<and> selection zoomedOut = Some \<lparr>sel_x = 0, sel_y = 0, sel_w = 100, sel_h = 100\<rparr>
   \<and> canvasRef zoomedOut = Some \<lparr>rect_left = 0, rect_top = 0\<rparr>
   \<and> \<not> zoom zoomedOut \<le> 1 / 1000 \<and> \<not> isGenerating zoomedOut \<and> (0 :: int) \<noteq> 1
   \<and> insideSelection 20 20 \<lparr>sel_x = 0, sel_y = 0, sel_w = 100, sel_h = 100\<rparr>
   \<and> (\<exists>s1 s2 sel2.
          runEvents [MouseMove 13 10] pressInside = Some s1
        \<and> dragAxisRef s1 = Some Horizontal
        \<and> runEvents [MouseMove 20 60, Wheel 100 0 0] s1 = Some s2
        \<and> dragAxisRef s2 = Some Horizontal
        \<and> selection s2 = Some sel2
        \<and> sel_y sel2 = 0 \<and> sel_w sel2 = 100 \<and> sel_h sel2 = 100)"
proof -
  let ?r = "\<lparr>rect_left = 0, rect_top = 0\<rparr>"
  let ?sel = "\<lparr>sel_x = 0, sel_y = 0, sel_w = 100, sel_h = 100\<rparr>"
  have h: "selectedTool zoomedOut = Select" "selection zoomedOut = Some ?sel"
    "canvasRef zoomedOut = Some ?r" "\<not> zoom zoomedOut \<le> 1 / 1000" "\<not> isGenerating zoomedOut"
    "(0 :: int) \<noteq> 1"
    by (simp_all add: zoomedOut_def idleState_def)
  have w: "toWorld zoomedOut ?r 10 10 = \<lparr>px = 20, py = 20\<rparr>"
    by (simp add: toWorld_def zoomedOut_def idleState_def)
  have ins: "insideSelection 20 20 ?sel"
    by (simp add: insideSelection_def)
  then have ins': "insideSelection (px (toWorld zoomedOut ?r 10 10))
      (py (toWorld zoomedOut ?r 10 10)) ?sel"
    by (simp add: w)
  from selection_drag_axis_locked[OF h ins', of "[MouseMove 13 10]"
      "[MouseMove 20 60, Wheel 100 0 0]"]
  obtain s1 s2 sel2 where
    r: "runEvents [MouseMove 13 10] (handleStart 10 10 0 zoomedOut) = Some s1"
      "runEvents [MouseMove 20 60, Wheel 100 0 0] s1 = Some s2"
      "selection s2 = Some sel2" "sel_w sel2 = 100" "sel_h sel2 = 100"
      "\<forall>a. dragAxisRef s1 = Some a \<longrightarrow> dragAxisRef s2 = Some a"
      "dragAxisRef s2 = Some Horizontal \<longrightarrow> sel_y sel2 = 0"
    by auto
  have "runEvents [MouseMove 13 10] pressInside
      = Some (pressInside\<lparr>dragAxisRef := Some Horizontal,
             selection := Some \<lparr>sel_x = 6, sel_y = 0, sel_w = 100, sel_h = 100\<rparr>\<rparr>)"
    by (simp add: move_3_pixels)
  with r(1) have a1: "dragAxisRef s1 = Some Horizontal"
    by (auto simp: pressInside_def)
  with r(6) have a2: "dragAxisRef s2 = Some Horizontal" by blast
  have "\<exists>s1 s2 sel2.
          runEvents [MouseMove 13 10] pressInside = Some s1
        \<and> dragAxisRef s1 = Some Horizontal
        \<and> runEvents [MouseMove 20 60, Wheel 100 0 0] s1 = Some s2
        \<and> dragAxisRef s2 = Some Horizontal
        \<and> selection s2 = Some sel2
        \<and> sel_y sel2 = 0 \<and> sel_w sel2 = 100 \<and> sel_h sel2 = 100"
    using r a1 a2 unfolding pressInside_def by blast
  then show ?thesis using h ins by blast
qed

text \<open>
  Against C8 as stated. At zoom 0.5 the select tool is pressed inside the selection at
  the client point (10, 10) and the pointer moves to (13, 10), 3 screen pixels away and
  so inside a deadzone of 5 screen pixels. The move is 6 world units long: it locks the
  horizontal axis and shifts the selection from x = 0 to x = 6.
\<close>

theorem deadzone_counterexample:
  "zoom pressInside = 1 / 2
   \<and> dragAxisRef pressInside = None
   \<and> selection pressInside = Some \<lparr>sel_x = 0, sel_y = 0, sel_w = 100, sel_h = 100\<rparr>
   \<and> \<bar>13 - 10 :: real\<bar> \<le> 5 \<and> \<bar>10 - 10 :: real\<bar> \<le> 5
   \<and> handleMove 13 10 pressInside
       = Some (pressInside\<lparr>dragAxisRef := Some Horizontal,
                 selection := Some \<lparr>sel_x = 6, sel_y = 0, sel_w = 100, sel_h = 100\<rparr>\<rparr>)"
  using move_3_pixels by (simp add: pressInside_eq zoomedOut_def idleState_def)


section \<open>Validation of a studio scene\<close>

lemma validateScene_Inr:
  assumes "validateScene scene = Inr vs"
  shows "vs = validShotsOf scene"
    and "startFrame scene \<noteq> None" and "startFrame scene \<noteq> Some []"
    and "vs \<noteq> []"
    and "2 \<le> length vs \<longrightarrow> length vs \<le> 6 \<and> (\<forall>t. totalDuration vs = Some t \<longrightarrow> t \<le> 15)"
  using assms
  by (auto simp: validateScene_def Let_def split: if_splits option.splits)

lemma validateScene_pass:
  assumes "startFrame scene \<noteq> None" "startFrame scene \<noteq> Some []" "validShotsOf scene \<noteq> []"
    and "\<not> (2 \<le> length (validShotsOf scene)
            \<and> (6 < length (validShotsOf scene)
               \<or> (\<exists>t. totalDuration (validShotsOf scene) = Some t \<and> 15 < t)))"
  shows "validateScene scene = Inr (validShotsOf scene)"
  using assms
  by (auto simp: validateScene_def Let_def split: option.splits)

lemma validateScene_reject:
  assumes "startFrame scene = None \<or> startFrame scene = Some [] \<or> validShotsOf scene = []
     \<or> (2 \<le> length (validShotsOf scene)
         \<and> (6 < length (validShotsOf scene)
            \<or> (\<exists>t. totalDuration (validShotsOf scene) = Some t \<and> 15 < t)))"
  shows "\<exists>a. validateScene scene = Inl a"
proof (cases "validateScene scene")
  case (Inl a)
  then show ?thesis by blast
next
  case (Inr vs)
  from validateScene_Inr[OF Inr] assms show ?thesis by auto
qed

lemma runVariations_calls: "Call c \<in> set (runVariations n c0 rs) \<Longrightarrow> c = c0"
  by (induction n c0 rs rule: runVariations.induct) auto

lemma runVariations_first: "0 < n \<Longrightarrow> Call c0 \<in> set (runVariations n c0 rs)"
  by (induction n c0 rs rule: runVariations.induct) auto

lemma handleGenerate_calls:
  assumes "Call c \<in> set (handleGenerate scene prepared results)"
  shows "validateScene scene = Inr (validShotsOf scene)" and "c = callFor (validShotsOf scene)"
proof -
  obtain vs where vs: "validateScene scene = Inr vs"
    using assms by (cases "validateScene scene") (auto simp: handleGenerate_def)
  then have eq: "vs = validShotsOf scene" by (rule validateScene_Inr(1))
  show "validateScene scene = Inr (validShotsOf scene)" using vs eq by simp
  show "c = callFor (validShotsOf scene)"
    using assms vs eq
    by (auto simp: handleGenerate_def dest: runVariations_calls split: if_splits)
qed

lemma callFor_single: "length vs \<le> 1 \<Longrightarrow> vs \<noteq> [] \<Longrightarrow> \<exists>p d. callFor vs = GenerateVideo p d"
  by (cases vs) (auto simp: callFor_def split: list.splits)

lemma callFor_multi:
  "2 \<le> length vs \<Longrightarrow>
     callFor vs = GenerateVideoMultiShot
       (map (\<lambda>sh. (orElse (prompt sh) defaultPrompt, orElse (duration sh) ''5'')) vs)"
  by (auto simp: callFor_def split: list.splits)

lemma parseInt_option:
  assumes "d \<in> set durationOptions"
  shows "\<exists>k. parseInt (orElse d ''5'') = Some k \<and> 3 \<le> k \<and> k \<le> 10"
  using assms
  by (auto simp: durationOptions_def orElse_def parseInt_def isWhiteSpace_def
      parseUnsigned_def parseDigits_def digitOf_def Let_def)

lemma totalDuration_options_from:
  assumes "\<forall>sh \<in> set vs. duration sh \<in> set durationOptions"
  shows "\<exists>t. foldl (\<lambda>sum sh. case sum of
                       None \<Rightarrow> None
                     | Some t \<Rightarrow> map_option (\<lambda>d. t + d) (parseInt (orElse (duration sh) ''5'')))
                (Some a) vs = Some t
             \<and> a + 3 * int (length vs) \<le> t"
  using assms
proof (induction vs arbitrary: a)
  case Nil
  then show ?case by simp
next
  case (Cons sh vs)
  from parseInt_option[of "duration sh"] Cons.prems obtain k where
    k: "parseInt (orElse (duration sh) ''5'') = Some k" "3 \<le> k"
    by auto
  from Cons.IH[of "a + k"] Cons.prems obtain t where
    "foldl (\<lambda>sum sh. case sum of
                       None \<Rightarrow> None
                     | Some t \<Rightarrow> map_option (\<lambda>d. t + d) (parseInt (orElse (duration sh) ''5'')))
                (Some (a + k)) vs = Some t" "a + k + 3 * int (length vs) \<le> t"
    by auto
  then show ?case using k by (intro exI[of _ t]) simp
qed

lemma totalDuration_options:
  assumes "\<forall>sh \<in> set vs. duration sh \<in> set durationOptions"
  shows "\<exists>t. totalDuration vs = Some t \<and> 3 * int (length vs) \<le> t"
  using totalDuration_options_from[OF assms, of 0] by (simp add: totalDuration_def)


lemma validShotsOf_sceneWith:
  "validShotsOf (sceneWith d1 d2)
   = [\<lparr>prompt = ''walk'', duration = d1\<rparr>, \<lparr>prompt = ''run'', duration = d2\<rparr>]"
  by (simp add: validShotsOf_def sceneWith_def trim_def isWhiteSpace_def)

lemma sceneWith_fields:
  "startFrame (sceneWith d1 d2) = Some ''data:image/png;base64,AAAA''"
  "variationCount (sceneWith d1 d2) = 1"
  "shots (sceneWith d1 d2)
   = [\<lparr>prompt = ''walk'', duration = d1\<rparr>, \<lparr>prompt = ''run'', duration = d2\<rparr>]"
  by (simp_all add: sceneWith_def)

lemma totalDuration_5_5:
  "totalDuration [\<lparr>prompt = ''walk'', duration = ''5''\<rparr>, \<lparr>prompt = ''run'', duration = ''5''\<rparr>]
   = Some 10"
  by (simp add: totalDuration_def orElse_def parseInt_def
      isWhiteSpace_def parseUnsigned_def parseDigits_def digitOf_def Let_def)

lemma totalDuration_1_1:
  "totalDuration [\<lparr>prompt = ''walk'', duration = ''1''\<rparr>, \<lparr>prompt = ''run'', duration = ''1''\<rparr>]
   = Some 2"
  by (simp add: totalDuration_def orElse_def parseInt_def
      isWhiteSpace_def parseUnsigned_def parseDigits_def digitOf_def Let_def)

lemma validateScene_5_5:
  "validateScene (sceneWith ''5'' ''5'') = Inr (validShotsOf (sceneWith ''5'' ''5''))"
  by (rule validateScene_pass)
     (simp_all add: totalDuration_5_5 sceneWith_fields validShotsOf_sceneWith)

lemma validateScene_1_1:
  "validateScene (sceneWith ''1'' ''1'') = Inr (validShotsOf (sceneWith ''1'' ''1''))"
  by (rule validateScene_pass)
     (simp_all add: totalDuration_1_1 sceneWith_fields validShotsOf_sceneWith)

lemma handleGenerate_1_1:
  "handleGenerate (sceneWith ''1'' ''1'') True [Resolved None]
   = [SetGenerating True,
      Call (GenerateVideoMultiShot [(''walk'', ''1''), (''run'', ''1'')]),
      SetGenerating False]"
  unfolding handleGenerate_def validateScene_1_1
  by (simp add: validShotsOf_sceneWith callFor_def orElse_def sceneWith_fields)

lemma handleGenerate_5_5:
  "handleGenerate (sceneWith ''5'' ''5'') True [Resolved None]
   = [SetGenerating True,
      Call (GenerateVideoMultiShot [(''walk'', ''5''), (''run'', ''5'')]),
      SetGenerating False]"
  unfolding handleGenerate_def validateScene_5_5
  by (simp add: validShotsOf_sceneWith callFor_def orElse_def sceneWith_fields)

text \<open>
  The checks of the handler, for any scene. Write \<open>vs\<close> for the shots of the scene
  whose prompt is not blank. A call to a video endpoint is made only when the start
  frame is present, \<open>vs\<close> is not empty and, if \<open>vs\<close> has two or more shots, it has at
  most six and their total duration is not above 15 seconds; a scene that fails one of
  these checks is answered by a single alert and nothing else. A scene with exactly one
  shot calls nothing but the single-clip endpoint. With two or more shots in \<open>vs\<close>,
  every call is the multi-shot call with one prompt and duration per shot of \<open>vs\<close>; and
  when the checks pass, the preparation of the frames settles and at least one variation
  is asked for, the call is made. The handler compares the total with 15 only
  (\<open>handleGenerate_1_1\<close> runs it on two shots of 1 second, which no select box offers);
  for durations taken from the options of the shot's select box, 3 to 10, a total of at
  least 3 is sure whenever a multi-shot call is made.
\<close>

lemma handleGenerate_checks:
  fixes scene :: Scene and prepared :: bool and results :: "call_result list"
  defines "vs \<equiv> validShotsOf scene"
  defines "tr \<equiv> handleGenerate scene prepared results"
  defines "rejected \<equiv>
     startFrame scene = None \<or> startFrame scene = Some [] \<or> vs = []
     \<or> (2 \<le> length vs \<and> (6 < length vs \<or> (\<exists>t. totalDuration vs = Some t \<and> 15 < t)))"
  shows "((\<exists>c. Call c \<in> set tr) \<longrightarrow> \<not> rejected)
       \<and> (rejected \<longrightarrow> (\<exists>a. tr = [Alert a]))
       \<and> (length (shots scene) = 1 \<longrightarrow>
            (\<forall>c. Call c \<in> set tr \<longrightarrow> (\<exists>p d. c = GenerateVideo p d)))
       \<and> (2 \<le> length vs \<longrightarrow>
            (\<forall>c. Call c \<in> set tr \<longrightarrow>
               c = GenerateVideoMultiShot
                     (map (\<lambda>sh. (orElse (prompt sh) defaultPrompt, orElse (duration sh) ''5''))
                        vs)))
       \<and> (\<not> rejected \<and> prepared \<and> 0 < variationCount scene \<longrightarrow>
            Call (callFor vs) \<in> set tr)
       \<and> ((\<forall>sh \<in> set vs. duration sh \<in> set durationOptions) \<and> 2 \<le> length vs
            \<and> (\<exists>c. Call c \<in> set tr) \<longrightarrow>
            (\<exists>t. totalDuration vs = Some t \<and> 3 \<le> t \<and> t \<le> 15))"
proof -
  have called: "\<not> rejected" "validateScene scene = Inr vs" "c = callFor vs"
    if "Call c \<in> set tr" for c
  proof -
    from handleGenerate_calls[OF that[unfolded tr_def]]
    show v: "validateScene scene = Inr vs" and "c = callFor vs"
      by (simp_all add: vs_def)
    from validateScene_Inr[OF v] show "\<not> rejected"
      unfolding rejected_def by auto
  qed
  have p1: "(\<exists>c. Call c \<in> set tr) \<longrightarrow> \<not> rejected"
    using called(1) by blast
  have p2: "rejected \<longrightarrow> (\<exists>a. tr = [Alert a])"
  proof
    assume rejected
    then obtain a where "validateScene scene = Inl a"
      using validateScene_reject[of scene] unfolding rejected_def vs_def by blast
    then show "\<exists>a. tr = [Alert a]" by (simp add: tr_def handleGenerate_def)
  qed
  have p3: "length (shots scene) = 1 \<longrightarrow>
            (\<forall>c. Call c \<in> set tr \<longrightarrow> (\<exists>p d. c = GenerateVideo p d))"
  proof (intro impI allI)
    fix c assume one: "length (shots scene) = 1" and c: "Call c \<in> set tr"
    have "length vs \<le> length (shots scene)"
      unfolding vs_def validShotsOf_def by (rule length_filter_le)
    then have le: "length vs \<le> 1" using one by simp
    from validateScene_Inr(4)[OF called(2)[OF c]] have "vs \<noteq> []" .
    from callFor_single[OF le this] called(3)[OF c]
    show "\<exists>p d. c = GenerateVideo p d" by simp
  qed
  have p4: "2 \<le> length vs \<longrightarrow>
            (\<forall>c. Call c \<in> set tr \<longrightarrow>
               c = GenerateVideoMultiShot
                     (map (\<lambda>sh. (orElse (prompt sh) defaultPrompt, orElse (duration sh) ''5''))
                        vs))"
    by (metis called(3) callFor_multi)
  have p5: "\<not> rejected \<and> prepared \<and> 0 < variationCount scene \<longrightarrow>
            Call (callFor vs) \<in> set tr"
  proof
    assume a: "\<not> rejected \<and> prepared \<and> 0 < variationCount scene"
    then have "validateScene scene = Inr vs"
      unfolding rejected_def vs_def by (intro validateScene_pass) auto
    then show "Call (callFor vs) \<in> set tr"
      using a runVariations_first[of "variationCount scene" "callFor vs" results]
      by (simp add: tr_def handleGenerate_def)
  qed
  have p6: "(\<forall>sh \<in> set vs. duration sh \<in> set durationOptions) \<and> 2 \<le> length vs
            \<and> (\<exists>c. Call c \<in> set tr) \<longrightarrow>
            (\<exists>t. totalDuration vs = Some t \<and> 3 \<le> t \<and> t \<le> 15)"
  proof
    assume a: "(\<forall>sh \<in> set vs. duration sh \<in> set durationOptions) \<and> 2 \<le> length vs
            \<and> (\<exists>c. Call c \<in> set tr)"
    then obtain c where c: "Call c \<in> set tr" by blast
    from totalDuration_options[of vs] a obtain t where
      t: "totalDuration vs = Some t" "3 * int (length vs) \<le> t"
      by blast
    from validateScene_Inr(5)[OF called(2)[OF c]] a t(1) have "t \<le> 15" by blast
    moreover have "3 \<le> t" using t(2) a by linarith
    ultimately show "\<exists>t. totalDuration vs = Some t \<and> 3 \<le> t \<and> t \<le> 15"
      using t(1) by blast
  qed
  from p1 p2 p3 p4 p5 p6 show ?thesis by blast
qed

lemma totalDuration_10_10:
  "totalDuration [\<lparr>prompt = ''walk'', duration = ''10''\<rparr>, \<lparr>prompt = ''run'', duration = ''10''\<rparr>]
   = Some 20"
  by (simp add: totalDuration_def orElse_def parseInt_def
      isWhiteSpace_def parseUnsigned_def parseDigits_def digitOf_def Let_def)

text \<open>
  Claim C7. Every duration of a shot is written by the app: it is the initial \<open>'5'\<close>
  or an option of the shot's select box, 3 to 10. For a scene with such durations, write
  \<open>vs\<close> for the shots whose prompt is not blank, and call the scene rejected when the
  start frame is missing, or \<open>vs\<close> is empty, or \<open>vs\<close> has two or more shots and either
  more than six of them or a total duration outside 3 to 15 seconds. A call to a video
  endpoint is made only for a scene that is not rejected; a rejected scene is answered
  by a single alert and nothing else. A scene with exactly one shot calls nothing but
  the single-clip endpoint. With two or more shots in \<open>vs\<close>, every call is the multi-shot
  call with one prompt and duration per shot of \<open>vs\<close>; and when the scene is not
  rejected, the preparation of the frames settles and at least one variation is asked
  for, the call is made.
\<close>

theorem studio_validation_before_dispatch:
  fixes scene :: Scene and prepared :: bool and results :: "call_result list"
  defines "vs \<equiv> validShotsOf scene"
  defines "tr \<equiv> handleGenerate scene prepared results"
  defines "rejected \<equiv>
     startFrame scene = None \<or> startFrame scene = Some [] \<or> vs = []
     \<or> (2 \<le> length vs
        \<and> (6 < length vs \<or> \<not> (\<exists>t. totalDuration vs = Some t \<and> 3 \<le> t \<and> t \<le> 15)))"
  assumes "\<forall>sh \<in> set (shots scene). duration sh \<in> set durationOptions"
  shows "((\<exists>c. Call c \<in> set tr) \<longrightarrow> \<not> rejected)
       \<and> (rejected \<longrightarrow> (\<exists>a. tr = [Alert a]))
       \<and> (length (shots scene) = 1 \<longrightarrow>
            (\<forall>c. Call c \<in> set tr \<longrightarrow> (\<exists>p d. c = GenerateVideo p d)))
       \<and> (2 \<le> length vs \<longrightarrow>
            (\<forall>c. Call c \<in> set tr \<longrightarrow>
               c = GenerateVideoMultiShot
                     (map (\<lambda>sh. (orElse (prompt sh) defaultPrompt, orElse (duration sh) ''5''))
                        vs)))
       \<and> (\<not> rejected \<and> prepared \<and> 0 < variationCount scene \<longrightarrow>
            Call (callFor vs) \<in> set tr)"
proof -
  have opts: "\<forall>sh \<in> set vs. duration sh \<in> set durationOptions"
    using assms(4) by (simp add: vs_def validShotsOf_def)
  from totalDuration_options[OF opts] obtain t where
    t: "totalDuration vs = Some t" "3 * int (length vs) \<le> t"
    by blast
  have low: "2 \<le> length vs \<Longrightarrow> 3 \<le> t" using t(2) by linarith
  have eq: "rejected \<longleftrightarrow>
     startFrame scene = None \<or> startFrame scene = Some [] \<or> vs = []
     \<or> (2 \<le> length vs \<and> (6 < length vs \<or> (\<exists>t. totalDuration vs = Some t \<and> 15 < t)))"
    unfolding rejected_def using t(1) low by auto
  show ?thesis
    unfolding eq vs_def tr_def
    using handleGenerate_checks[of scene prepared results] by blast
qed

theorem studio_validation_before_dispatch_witness:
  "map duration (shots (sceneWith ''5'' ''5'')) = [''5'', ''5'']
   \<and> map duration (shots (sceneWith ''10'' ''10'')) = [''10'', ''10'']
   \<and> ''5'' \<in> set durationOptions \<and> ''10'' \<in> set durationOptions
   \<and> startFrame (sceneWith ''5'' ''5'') = Some ''data:image/png;base64,AAAA''
   \<and> map duration (validShotsOf (sceneWith ''5'' ''5'')) = [''5'', ''5'']
   \<and> 0 < variationCount (sceneWith ''5'' ''5'')
   \<and> totalDuration (validShotsOf (sceneWith ''5'' ''5'')) = Some 10
   \<and> Call (GenerateVideoMultiShot [(''walk'', ''5''), (''run'', ''5'')])
       \<in> set (handleGenerate (sceneWith ''5'' ''5'') True [Resolved None])
   \<and> totalDuration (validShotsOf (sceneWith ''10'' ''10'')) = Some 20
   \<and> (\<exists>a. handleGenerate (sceneWith ''10'' ''10'') True [Resolved None] = [Alert a])"
proof -
  let ?sc = "sceneWith ''5'' ''5''" and ?long = "sceneWith ''10'' ''10''"
  have o5: "\<forall>sh \<in> set (shots ?sc). duration sh \<in> set durationOptions"
    by (simp add: sceneWith_fields durationOptions_def)
  have o10: "\<forall>sh \<in> set (shots ?long). duration sh \<in> set durationOptions"
    by (simp add: sceneWith_fields durationOptions_def)
  have ok: "\<not> (startFrame ?sc = None \<or> startFrame ?sc = Some [] \<or> validShotsOf ?sc = []
     \<or> (2 \<le> length (validShotsOf ?sc)
        \<and> (6 < length (validShotsOf ?sc)
           \<or> \<not> (\<exists>t. totalDuration (validShotsOf ?sc) = Some t \<and> 3 \<le> t \<and> t \<le> 15))))"
    by (simp add: totalDuration_5_5 sceneWith_fields validShotsOf_sceneWith)
  have bad: "startFrame ?long = None \<or> startFrame ?long = Some [] \<or> validShotsOf ?long = []
     \<or> (2 \<le> length (validShotsOf ?long)
        \<and> (6 < length (validShotsOf ?long)
           \<or> \<not> (\<exists>t. totalDuration (validShotsOf ?long) = Some t \<and> 3 \<le> t \<and> t \<le> 15)))"
    by (simp add: totalDuration_10_10 sceneWith_fields validShotsOf_sceneWith)
  have vc: "0 < variationCount ?sc" by (simp add: sceneWith_fields)
  from studio_validation_before_dispatch[OF o5, of True "[Resolved None]"] ok vc
  have "Call (callFor (validShotsOf ?sc)) \<in> set (handleGenerate ?sc True [Resolved None])"
    by blast
  moreover have "callFor (validShotsOf ?sc)
      = GenerateVideoMultiShot [(''walk'', ''5''), (''run'', ''5'')]"
    by (simp add: validShotsOf_sceneWith callFor_def orElse_def)
  moreover from studio_validation_before_dispatch[OF o10, of True "[Resolved None]"] bad
  have "\<exists>a. handleGenerate ?long True [Resolved None] = [Alert a]"
    by blast
  ultimately show ?thesis
    using vc
    by (simp add: validShotsOf_sceneWith sceneWith_fields totalDuration_5_5
        totalDuration_10_10 durationOptions_def)
qed


section \<open>Errors during a canvas generation\<close>

lemma videoLayer_placedOn: "u \<noteq> [] \<Longrightarrow> placedOn (ctx_selection ctx) (videoLayer ctx i now u)"
  by (simp add: placedOn_def videoLayer_def Let_def)

lemma generationLayer_placedOn:
  "u \<noteq> [] \<Longrightarrow> placedOn (ctx_selection ctx) (generationLayer ctx i now u)"
  by (simp add: placedOn_def generationLayer_def Let_def)

lemma grownBy_refl: "grownBy sel n s s"
  unfolding grownBy_def by (intro exI[of _ "[]"] exI[of _ "selectedLayerIds s"]) simp

lemma grownBy_Suc: "grownBy sel n s s' \<Longrightarrow> grownBy sel (Suc n) s s'"
  unfolding grownBy_def by (elim exE conjE) (auto intro: le_SucI)

lemma grownBy_addLayer:
  assumes "placedOn sel l" and "grownBy sel n (addLayer l s) s'"
  shows "grownBy sel (Suc n) s s'"
proof -
  from assms(2) obtain news ids where
    eq: "s' = (addLayer l s)\<lparr>layers := news @ layers (addLayer l s), selectedLayerIds := ids\<rparr>"
    and len: "length news \<le> n" and pl: "list_all (placedOn sel) news"
    and ids: "ids = (if news = [] then selectedLayerIds (addLayer l s) else [layer_id (hd news)])"
    unfolding grownBy_def by blast
  have "s' = s\<lparr>layers := (news @ [l]) @ layers s, selectedLayerIds := ids\<rparr>"
    unfolding eq by (simp add: addLayer_def)
  moreover have "length (news @ [l]) \<le> Suc n" using len by simp
  moreover have "list_all (placedOn sel) (news @ [l])" using pl assms(1) by simp
  moreover have "ids = (if news @ [l] = [] then selectedLayerIds s else [layer_id (hd (news @ [l]))])"
    using ids by (cases news) (simp_all add: addLayer_def)
  ultimately show ?thesis unfolding grownBy_def by blast
qed

lemma generationLoop_grownBy:
  "grownBy (ctx_selection ctx) n s (endState (generationLoop ctx i n outs s))"
proof (induction ctx i n outs s rule: generationLoop.induct)
  case (1 ctx i outs s)
  show ?case by (simp add: grownBy_refl)
next
  case (2 ctx i n s)
  show ?case by (simp add: grownBy_refl)
next
  case (3 ctx i n now r outs s)
  let ?video = "ctx_isVideoModel ctx \<and> length (ctx_imagesToSend ctx) > 0"
  show ?case
  proof (cases ?video)
    case True
    show ?thesis
    proof (cases "generateVideo r")
      case (Rejected e)
      then show ?thesis using True by (simp add: grownBy_refl)
    next
      case (Resolved v)
      show ?thesis
      proof (cases v)
        case None
        from "3.IH"(1)[OF True Resolved None]
        show ?thesis using True Resolved None by (simp add: grownBy_Suc)
      next
        case (Some u)
        show ?thesis
        proof (cases "u = []")
          case empty: True
          from "3.IH"(2)[OF True Resolved Some] empty
          show ?thesis using True Resolved Some by (simp add: grownBy_Suc)
        next
          case False
          from "3.IH"(2)[OF True Resolved Some] False
          have "grownBy (ctx_selection ctx) n (addLayer (videoLayer ctx i now u) s)
                  (endState (generationLoop ctx (Suc i) n outs
                     (addLayer (videoLayer ctx i now u) s)))"
            by simp
          from grownBy_addLayer[OF videoLayer_placedOn[OF False] this]
          show ?thesis using True Resolved Some False by simp
        qed
      qed
    qed
  next
    case nv: False
    show ?thesis
    proof (cases "generateImageContent r")
      case (Rejected e)
      then show ?thesis using nv by (auto simp: grownBy_refl)
    next
      case (Resolved v)
      show ?thesis
      proof (cases v)
        case None
        from "3.IH"(3)[OF nv Resolved None]
        show ?thesis using nv Resolved None by (auto simp: grownBy_Suc)
      next
        case (Some u)
        show ?thesis
        proof (cases "u = []")
          case empty: True
          from "3.IH"(4)[OF nv Resolved Some] empty
          show ?thesis using nv Resolved Some by (auto simp: grownBy_Suc)
        next
          case False
          from "3.IH"(4)[OF nv Resolved Some] False
          have "grownBy (ctx_selection ctx) n (addLayer (generationLayer ctx i now u) s)
                  (endState (generationLoop ctx (Suc i) n outs
                     (addLayer (generationLayer ctx i now u) s)))"
            by simp
          from grownBy_addLayer[OF generationLayer_placedOn[OF False] this]
          show ?thesis using nv Resolved Some False by auto
        qed
      qed
    qed
  qed
qed


lemma startsWith_append: "startsWith (a @ b) a"
  by (induction a) simp_all

lemma includesStr_prefix: "includesStr (a @ b) a"
proof (cases "a @ b")
  case Nil
  then show ?thesis by simp
next
  case (Cons x xs)
  have "startsWith (x # xs) a" using startsWith_append[of a b] Cons by simp
  then have "includesStr (x # xs) a" by simp
  then show ?thesis using Cons by simp
qed

lemma toLowerCase_append: "toLowerCase (a @ b) = toLowerCase a @ toLowerCase b"
  by (simp add: toLowerCase_def)

lemma toLowerCase_credit_prefix:
  "toLowerCase (''Cr'' @ [CHR 0xE9] @ ''ditos insuficientes'') = creditosInsuficientes"
  by code_simp

lemma creditExhaustion_message:
  "messageOf (creditExhaustion h c)
   = (''Cr'' @ [CHR 0xE9] @ ''ditos insuficientes'')
     @ (''. Voc'' @ [CHR 0xEA] @ '' tem '' @ showNat h @ '', mas precisa de '' @ showNat c @ ''.'')"
  by (simp add: creditExhaustion_def messageOf_def)

lemma wrappers_creditExhaustion:
  "generateImageContent (CallableError (creditExhaustion h c)) = Rejected (rethrown h c)"
  "generateVideo (CallableError (creditExhaustion h c)) = Rejected (rethrown h c)"
  by (simp_all add: generateImageContent_def generateVideo_def rethrown_def orElse_def
      creditExhaustion_def messageOf_def)

lemma canvasAlertFor_rethrown: "canvasAlertFor (rethrown h c) = CreditsAlert"
proof -
  define P where "P = ''Cr'' @ [CHR 0xE9] @ ''ditos insuficientes''"
  define Q where "Q = ''. Voc'' @ [CHR 0xEA] @ '' tem '' @ showNat h @ '', mas precisa de ''
      @ showNat c @ ''.''"
  have "messageOf (rethrown h c) = P @ Q"
    by (simp add: rethrown_def messageOf_def creditExhaustion_def P_def Q_def)
  moreover have "toLowerCase P = creditosInsuficientes"
    unfolding P_def by (rule toLowerCase_credit_prefix)
  ultimately have "toLowerCase (messageOf (rethrown h c)) = creditosInsuficientes @ toLowerCase Q"
    by (simp add: toLowerCase_append)
  then have "includesStr (toLowerCase (messageOf (rethrown h c))) creditosInsuficientes"
    by (simp only: includesStr_prefix)
  then show ?thesis by (simp add: canvasAlertFor_def isCreditError_def)
qed


lemma orNull_cases:
  obtains "orNull d = None" | u where "orNull d = Some u" "u \<noteq> []"
proof (cases d)
  case None
  then have "orNull d = None" by (simp add: orNull_def)
  then show ?thesis by (rule that(1))
next
  case (Some a)
  show ?thesis
  proof (cases "a = []")
    case True
    then have "orNull d = None" using Some by (simp add: orNull_def)
    then show ?thesis by (rule that(1))
  next
    case False
    then have "orNull d = Some a" using Some by (simp add: orNull_def)
    then show ?thesis using False by (rule that(2))
  qed
qed

lemma generationLoop_data_step:
  "generationLoop ctx i (Suc n) ((t, CallableData d) # outs) s =
     (case orNull d of
        None \<Rightarrow> generationLoop ctx (Suc i) n outs s
      | Some u \<Rightarrow>
          generationLoop ctx (Suc i) n outs
            (if u = [] then s
             else addLayer (if ctx_isVideoModel ctx \<and> length (ctx_imagesToSend ctx) > 0
                            then videoLayer ctx i t u else generationLayer ctx i t u) s))"
  by (auto simp: generateVideo_def generateImageContent_def split: option.splits)

lemma generationLoop_refused_step:
  "generationLoop ctx i (Suc n) ((t, CallableError (creditExhaustion h c)) # outs) s
   = Threw (rethrown h c) s"
  by (auto simp: wrappers_creditExhaustion)

declare generationLoop.simps(3) [simp del]

lemma generationLoop_refused:
  assumes "list_all (\<lambda>out. \<exists>d. snd out = CallableData d) pre" and "length pre < n"
  shows "\<exists>s2. generationLoop ctx i n (pre @ (t, CallableError (creditExhaustion h c)) # rest) s
              = Threw (rethrown h c) s2
           \<and> grownBy (ctx_selection ctx) (length pre) s s2"
  using assms
proof (induction pre arbitrary: i n s)
  case Nil
  then obtain m where "n = Suc m" by (cases n) auto
  then show ?case by (simp add: generationLoop_refused_step grownBy_refl)
next
  case (Cons out pre)
  from Cons.prems obtain m where n: "n = Suc m" and m: "length pre < m"
    by (cases n) auto
  from Cons.prems obtain t0 d where out: "out = (t0, CallableData d)"
    by (cases out) auto
  have rest: "list_all (\<lambda>out. \<exists>d. snd out = CallableData d) pre"
    using Cons.prems by simp
  let ?outs = "pre @ (t, CallableError (creditExhaustion h c)) # rest"
  show ?case
  proof (cases d rule: orNull_cases)
    case 1
    from Cons.IH[OF rest m, of "Suc i" s] obtain s2 where
      "generationLoop ctx (Suc i) m ?outs s = Threw (rethrown h c) s2"
      "grownBy (ctx_selection ctx) (length pre) s s2"
      by blast
    then show ?thesis
      using 1 by (simp add: n out generationLoop_data_step grownBy_Suc)
  next
    case (2 u)
    let ?l = "if ctx_isVideoModel ctx \<and> length (ctx_imagesToSend ctx) > 0
              then videoLayer ctx i t0 u else generationLayer ctx i t0 u"
    have pl: "placedOn (ctx_selection ctx) ?l"
      using 2(2) by (simp add: videoLayer_placedOn generationLayer_placedOn)
    from Cons.IH[OF rest m, of "Suc i" "addLayer ?l s"] obtain s2 where
      s2: "generationLoop ctx (Suc i) m ?outs (addLayer ?l s) = Threw (rethrown h c) s2"
        "grownBy (ctx_selection ctx) (length pre) (addLayer ?l s) s2"
      by blast
    have "grownBy (ctx_selection ctx) (Suc (length pre)) s s2"
      using grownBy_addLayer[OF pl s2(2)] .
    moreover have "generationLoop ctx i n ((out # pre) @ (t, CallableError (creditExhaustion h c)) # rest) s
        = Threw (rethrown h c) s2"
      using s2(1) 2 by (simp add: n out generationLoop_data_step)
    ultimately show ?thesis by simp
  qed
qed


lemma contextOf_fields:
  "ctx_selection (contextOf promptText defaultFeather props sel snap) = sel"
  "ctx_isVideoModel (contextOf promptText defaultFeather props sel snap)
     = (activeModel props = KLING_PRO)"
  by (simp_all add: contextOf_def Let_def)

lemma grownBy_started:
  assumes "grownBy sel n (s\<lparr>generatingEffect := g, isGenerating := True\<rparr>) s2"
  shows "\<exists>news ids. s2 = s\<lparr>layers := news @ layers s, selectedLayerIds := ids,
                           generatingEffect := g, isGenerating := True\<rparr>
            \<and> length news \<le> n \<and> list_all (placedOn sel) news"
proof -
  let ?s1 = "s\<lparr>generatingEffect := g, isGenerating := True\<rparr>"
  from assms obtain news ids where
    eq: "s2 = ?s1\<lparr>layers := news @ layers ?s1, selectedLayerIds := ids\<rparr>"
    and len: "length news \<le> n" and pl: "list_all (placedOn sel) news"
    unfolding grownBy_def by blast
  have "s2 = s\<lparr>layers := news @ layers s, selectedLayerIds := ids,
                generatingEffect := g, isGenerating := True\<rparr>"
    unfolding eq by simp
  with len pl show ?thesis
    by (intro exI[of _ news] exI[of _ ids] conjI)
qed

lemma triggerGeneration_unfold:
  assumes "selection s = Some sel"
  shows "triggerGeneration promptText defaultFeather props rnd snapshot outs s =
     (case snapshot of
        Rejected e \<Rightarrow>
          Returned (finishGeneration props (catchGeneration e
             (s\<lparr>generatingEffect := ALL_EFFECTS ! (rnd mod 3), isGenerating := True\<rparr>)))
      | Resolved snap \<Rightarrow>
          (case generationLoop (contextOf promptText defaultFeather props sel snap) 0
                  (if activeModel props = KLING_PRO then 1 else genVariationCount props) outs
                  (s\<lparr>generatingEffect := ALL_EFFECTS ! (rnd mod 3), isGenerating := True\<rparr>) of
             Completed s2 \<Rightarrow> Returned (finishGeneration props (s2\<lparr>redoStack := []\<rparr>))
           | Threw e s2 \<Rightarrow> Returned (finishGeneration props (catchGeneration e s2))
           | Waiting s2 \<Rightarrow> Pending s2))"
  using assms
  by (cases snapshot) (simp_all add: triggerGeneration_def Let_def contextOf_fields)

text \<open>
  Claim C6. Let a generation start on a selection. Whatever the snapshot and the calls
  do, the handler either returns or waits for a call that never settles, and the state
  it leaves is the old one with some whole new layers in front of the layer list (each
  placed on the selection, shown, unlocked, with a source; at most one per round of the
  loop), the selected ids, the redo stack, the busy flag, the selection, the effect, the
  alerts and the autosave timers: no other field differs. When it returns, the busy flag
  is false, the selection is null and the effect is empty, and either no alert was added
  and the redo stack is empty, or one alert was added and the redo stack is as before.
  If the snapshot resolves, the first \<open>length pre\<close> calls return data and the next
  call, still within the loop, fails with the credit error of the Cloud Functions, then
  the handler returns, the alert added is the insufficient-credits one, the layers are
  the old ones behind at most \<open>length pre\<close> whole new layers, so that the failed call
  added none, the selection is null and the busy flag is false.
\<close>

theorem generation_error_leaves_layers_whole:
  fixes s :: gen_state and props :: gen_props and promptText :: string
    and defaultFeather :: "real option" and rnd :: nat and snapshot :: call_result
    and outs :: "(nat \<times> callable_result) list"
  defines "res \<equiv> triggerGeneration promptText defaultFeather props rnd snapshot outs s"
  defines "loops \<equiv> (if activeModel props = KLING_PRO then 1 else genVariationCount props)"
  assumes "selection s = Some sel"
  shows
  "(\<exists>s' news ids rs busy sel' eff al k.
       (res = Returned s' \<or> res = Pending s')
     \<and> s' = s\<lparr>layers := news @ layers s, selectedLayerIds := ids, redoStack := rs,
             isGenerating := busy, selection := sel', generatingEffect := eff,
             shownAlerts := al, autoSaveTimers := k\<rparr>
     \<and> length news \<le> loops \<and> list_all (placedOn sel) news
     \<and> (res = Returned s' \<longrightarrow> \<not> busy \<and> sel' = None \<and> eff = []
          \<and> ((al = shownAlerts s \<and> rs = [])
             \<or> ((\<exists>a. al = shownAlerts s @ [a]) \<and> rs = redoStack s))))
   \<and> (\<forall>snap pre t h c rest.
        snapshot = Resolved snap \<and> outs = pre @ (t, CallableError (creditExhaustion h c)) # rest
        \<and> list_all (\<lambda>out. \<exists>d. snd out = CallableData d) pre \<and> length pre < loops \<longrightarrow>
        (\<exists>s' news. res = Returned s' \<and> layers s' = news @ layers s \<and> length news \<le> length pre
            \<and> list_all (placedOn sel) news
            \<and> shownAlerts s' = shownAlerts s @ [CreditsAlert]
            \<and> redoStack s' = redoStack s
            \<and> \<not> isGenerating s' \<and> selection s' = None \<and> generatingEffect s' = []))"
proof (intro conjI allI impI)
  let ?g = "ALL_EFFECTS ! (rnd mod 3)"
  let ?s1 = "s\<lparr>generatingEffect := ?g, isGenerating := True\<rparr>"
  let ?k = "if hasAutoSave props then Suc (autoSaveTimers s) else autoSaveTimers s"
  let ?Q = "\<lambda>s' news ids rs busy sel' eff al k.
       (res = Returned s' \<or> res = Pending s')
     \<and> s' = s\<lparr>layers := news @ layers s, selectedLayerIds := ids, redoStack := rs,
             isGenerating := busy, selection := sel', generatingEffect := eff,
             shownAlerts := al, autoSaveTimers := k\<rparr>
     \<and> length news \<le> loops \<and> list_all (placedOn sel) news
     \<and> (res = Returned s' \<longrightarrow> \<not> busy \<and> sel' = None \<and> eff = []
          \<and> ((al = shownAlerts s \<and> rs = [])
             \<or> ((\<exists>a. al = shownAlerts s @ [a]) \<and> rs = redoStack s)))"
  show "\<exists>s' news ids rs busy sel' eff al k. ?Q s' news ids rs busy sel' eff al k"
  proof (cases snapshot)
    case (Rejected e)
    have r: "res = Returned (finishGeneration props (catchGeneration e ?s1))"
      unfolding res_def triggerGeneration_unfold[OF assms(3)] Rejected by simp
    have "?Q (finishGeneration props (catchGeneration e ?s1)) [] (selectedLayerIds s)
            (redoStack s) False None [] (shownAlerts s @ [canvasAlertFor e]) ?k"
      unfolding r by (simp add: finishGeneration_def catchGeneration_def Let_def)
    then show ?thesis
      by - (rule exI, rule exI, rule exI, rule exI, rule exI, rule exI, rule exI, rule exI,
        rule exI, assumption)
  next
    case (Resolved snap)
    let ?ctx = "contextOf promptText defaultFeather props sel snap"
    let ?L = "generationLoop ?ctx 0 loops outs ?s1"
    from generationLoop_grownBy[of ?ctx loops ?s1 0 outs]
    have "grownBy sel loops ?s1 (endState ?L)" by (simp add: contextOf_fields)
    from grownBy_started[OF this] obtain news ids where
      e: "endState ?L = s\<lparr>layers := news @ layers s, selectedLayerIds := ids,
                           generatingEffect := ?g, isGenerating := True\<rparr>"
      and len: "length news \<le> loops" and pl: "list_all (placedOn sel) news"
      by blast
    have r: "res = (case ?L of
             Completed s2 \<Rightarrow> Returned (finishGeneration props (s2\<lparr>redoStack := []\<rparr>))
           | Threw e s2 \<Rightarrow> Returned (finishGeneration props (catchGeneration e s2))
           | Waiting s2 \<Rightarrow> Pending s2)"
      unfolding res_def triggerGeneration_unfold[OF assms(3)] Resolved loops_def by simp
    show ?thesis
    proof (cases ?L)
      case (Completed s2)
      then have s2: "s2 = s\<lparr>layers := news @ layers s, selectedLayerIds := ids,
                           generatingEffect := ?g, isGenerating := True\<rparr>"
        using e by simp
      have "?Q (finishGeneration props (s2\<lparr>redoStack := []\<rparr>)) news ids [] False None []
              (shownAlerts s) ?k"
        unfolding r Completed using len pl
        by (simp add: s2 finishGeneration_def Let_def)
      then show ?thesis
        by - (rule exI, rule exI, rule exI, rule exI, rule exI, rule exI, rule exI, rule exI,
          rule exI, assumption)
    next
      case (Threw err s2)
      then have s2: "s2 = s\<lparr>layers := news @ layers s, selectedLayerIds := ids,
                           generatingEffect := ?g, isGenerating := True\<rparr>"
        using e by simp
      have "?Q (finishGeneration props (catchGeneration err s2)) news ids (redoStack s) False
              None [] (shownAlerts s @ [canvasAlertFor err]) ?k"
        unfolding r Threw using len pl
        by (simp add: s2 finishGeneration_def catchGeneration_def Let_def)
      then show ?thesis
        by - (rule exI, rule exI, rule exI, rule exI, rule exI, rule exI, rule exI, rule exI,
          rule exI, assumption)
    next
      case (Waiting s2)
      then have s2: "s2 = s\<lparr>layers := news @ layers s, selectedLayerIds := ids,
                           generatingEffect := ?g, isGenerating := True\<rparr>"
        using e by simp
      have "?Q s2 news ids (redoStack s) True (selection s) ?g (shownAlerts s)
              (autoSaveTimers s)"
        unfolding r Waiting using len pl by (simp add: s2)
      then show ?thesis
        by - (rule exI, rule exI, rule exI, rule exI, rule exI, rule exI, rule exI, rule exI,
          rule exI, assumption)
    qed
  qed
next
  fix snap pre t h c rest
  let ?g = "ALL_EFFECTS ! (rnd mod 3)"
  let ?s1 = "s\<lparr>generatingEffect := ?g, isGenerating := True\<rparr>"
  let ?ctx = "contextOf promptText defaultFeather props sel snap"
  assume a: "snapshot = Resolved snap
      \<and> outs = pre @ (t, CallableError (creditExhaustion h c)) # rest
      \<and> list_all (\<lambda>out. \<exists>d. snd out = CallableData d) pre \<and> length pre < loops"
  have "\<exists>s2. generationLoop ?ctx 0 loops (pre @ (t, CallableError (creditExhaustion h c)) # rest) ?s1
              = Threw (rethrown h c) s2
           \<and> grownBy (ctx_selection ?ctx) (length pre) ?s1 s2"
    using a by (intro generationLoop_refused) simp_all
  then obtain s2 where
    th: "generationLoop ?ctx 0 loops outs ?s1 = Threw (rethrown h c) s2"
    and gr: "grownBy sel (length pre) ?s1 s2"
    using a unfolding contextOf_fields by blast
  from grownBy_started[OF gr] obtain news ids where
    s2: "s2 = s\<lparr>layers := news @ layers s, selectedLayerIds := ids,
                 generatingEffect := ?g, isGenerating := True\<rparr>"
    and len: "length news \<le> length pre" and pl: "list_all (placedOn sel) news"
    by blast
  have r: "res = Returned (finishGeneration props (catchGeneration (rethrown h c) s2))"
    unfolding res_def triggerGeneration_unfold[OF assms(3)]
    using a th by (simp add: loops_def)
  show "\<exists>s' news. res = Returned s' \<and> layers s' = news @ layers s \<and> length news \<le> length pre
            \<and> list_all (placedOn sel) news
            \<and> shownAlerts s' = shownAlerts s @ [CreditsAlert]
            \<and> redoStack s' = redoStack s
            \<and> \<not> isGenerating s' \<and> selection s' = None \<and> generatingEffect s' = []"
    unfolding r using len pl
    by (intro exI[of _ "finishGeneration props (catchGeneration (rethrown h c) s2)"]
        exI[of _ news])
       (simp add: s2 finishGeneration_def catchGeneration_def Let_def canvasAlertFor_rethrown)
qed

lemma genStart_fields:
  "selection genStart = Some \<lparr>sel_x = 0, sel_y = 0, sel_w = 512, sel_h = 512\<rparr>"
  "layers genStart = []" "shownAlerts genStart = []"
  by (simp_all add: genStart_def idleState_def canvas_state.defs gen_state.defs)

theorem generation_error_leaves_layers_whole_witness:
  "selection genStart = Some \<lparr>sel_x = 0, sel_y = 0, sel_w = 512, sel_h = 512\<rparr>
   \<and> length [(1000 :: nat, CallableData (Some ''data:image/png;base64,BBBB''))]
       < genVariationCount twoVariations
   \<and> (\<exists>s'. triggerGeneration ''a cat'' None twoVariations 0 (Resolved None) oneThenRefused
               genStart = Returned s'
          \<and> length (layers s') \<le> 1
          \<and> shownAlerts s' = [CreditsAlert]
          \<and> \<not> isGenerating s' \<and> selection s' = None \<and> generatingEffect s' = [])"
proof -
  let ?pre = "[(1000 :: nat, CallableData (Some ''data:image/png;base64,BBBB''))]"
  have hyp: "Resolved None = Resolved None
      \<and> oneThenRefused = ?pre @ (1001, CallableError (creditExhaustion 0 1)) # []
      \<and> list_all (\<lambda>out. \<exists>d. snd out = CallableData d) ?pre
      \<and> length ?pre < (if activeModel twoVariations = KLING_PRO then 1
                        else genVariationCount twoVariations)"
    by (simp add: oneThenRefused_def twoVariations_def)
  from generation_error_leaves_layers_whole[OF genStart_fields(1), of "''a cat''" None
      twoVariations 0 "Resolved None" oneThenRefused]
  have "\<forall>snap pre t h c rest.
        Resolved None = Resolved snap
        \<and> oneThenRefused = pre @ (t, CallableError (creditExhaustion h c)) # rest
        \<and> list_all (\<lambda>out. \<exists>d. snd out = CallableData d) pre
        \<and> length pre < (if activeModel twoVariations = KLING_PRO then 1
                         else genVariationCount twoVariations) \<longrightarrow>
        (\<exists>s' news. triggerGeneration ''a cat'' None twoVariations 0 (Resolved None)
                      oneThenRefused genStart = Returned s'
            \<and> layers s' = news @ layers genStart \<and> length news \<le> length pre
            \<and> list_all (placedOn \<lparr>sel_x = 0, sel_y = 0, sel_w = 512, sel_h = 512\<rparr>) news
            \<and> shownAlerts s' = shownAlerts genStart @ [CreditsAlert]
            \<and> redoStack s' = redoStack genStart
            \<and> \<not> isGenerating s' \<and> selection s' = None \<and> generatingEffect s' = [])"
    by (rule conjunct2)
  from this[rule_format, OF hyp] obtain s' news where
    r: "triggerGeneration ''a cat'' None twoVariations 0 (Resolved None) oneThenRefused genStart
          = Returned s'"
      "layers s' = news @ layers genStart" "length news \<le> length ?pre"
      "shownAlerts s' = shownAlerts genStart @ [CreditsAlert]"
      "\<not> isGenerating s'" "selection s' = None" "generatingEffect s' = []"
    by blast
  have "length (layers s') \<le> 1" "shownAlerts s' = [CreditsAlert]"
    using r(2,3,4) by (simp_all add: genStart_fields)
  with r(1,5,6,7) have "\<exists>s'. triggerGeneration ''a cat'' None twoVariations 0 (Resolved None)
               oneThenRefused genStart = Returned s'
          \<and> length (layers s') \<le> 1
          \<and> shownAlerts s' = [CreditsAlert]
          \<and> \<not> isGenerating s' \<and> selection s' = None \<and> generatingEffect s' = []"
    by (intro exI[of _ s']) simp
  moreover have "length ?pre < genVariationCount twoVariations"
    by (simp add: twoVariations_def)
  ultimately show ?thesis using genStart_fields(1) by simp
qed

section \<open>The order of an export\<close>

lemma playedUpTo_Suc: "playedUpTo vs (Suc k) = playedUpTo vs k @ sceneEntries vs k"
  by (simp add: playedUpTo_def)

lemma playedUpTo_prefix: "k \<le> n \<Longrightarrow> prefix (playedUpTo vs k) (playedUpTo vs n)"
proof (induction n)
  case 0
  then show ?case by simp
next
  case (Suc n)
  show ?case
  proof (cases "k = Suc n")
    case True
    then show ?thesis by simp
  next
    case False
    with Suc have "prefix (playedUpTo vs k) (playedUpTo vs n)" by simp
    then show ?thesis unfolding playedUpTo_Suc by (rule prefix_prefix)
  qed
qed

lemma playedUpTo_next_prefix:
  assumes "k < n"
  shows "prefix (playedUpTo vs k @ sceneEntries vs k) (playedUpTo vs n)"
  using playedUpTo_prefix[of "Suc k" n vs] assms by (simp add: playedUpTo_Suc)

lemma handleExportFullMovie_inv:
  "validScenesOf scenes \<noteq> [] \<Longrightarrow> exportInv (validScenesOf scenes) (handleExportFullMovie scenes)"
  by (simp add: handleExportFullMovie_def exportInv_def logOf_def Let_def)


lemma exportInv_NotCreated:
  assumes "recorder s = NotCreated"
  shows "exportInv vs s \<longleftrightarrow>
     validScenes s = vs \<and> vs \<noteq> [] \<and> videoEl s = NoSource \<and> currentSceneIndex s = 0
     \<and> (awaiting s = AwaitMetadata \<and> exportLog s = []
        \<or> awaiting s = NotWaiting \<and> exportLog s = [AlertExportError])"
  using assms by (auto simp: exportInv_def logOf_def Let_def)

lemma exportInv_Recording:
  assumes "recorder s = Recording"
  shows "exportInv vs s \<longleftrightarrow>
     validScenes s = vs \<and> vs \<noteq> [] \<and> currentSceneIndex s < length vs
     \<and> (awaiting s = AwaitCanPlay
          \<and> videoEl s = LoadingSrc (selectedVideoUrl (vs ! currentSceneIndex s))
          \<and> exportLog s = playedUpTo vs (currentSceneIndex s)
               @ [VideoLoaded (currentSceneIndex s) (selectedVideoUrl (vs ! currentSceneIndex s))]
        \<or> (awaiting s = AwaitPlay \<and> videoEl s = CanPlay
            \<or> awaiting s = NotWaiting \<and> onendedSet s
               \<and> (videoEl s = CanPlay \<or> videoEl s = Playing))
          \<and> exportLog s = playedUpTo vs (currentSceneIndex s)
               @ [VideoLoaded (currentSceneIndex s) (selectedVideoUrl (vs ! currentSceneIndex s)),
                  PlaybackStarted (currentSceneIndex s)])"
  using assms by (cases "awaiting s") (auto simp: exportInv_def logOf_def Let_def)

lemma exportInv_StopPending:
  assumes "recorder s = StopPending"
  shows "exportInv vs s \<longleftrightarrow>
     validScenes s = vs \<and> vs \<noteq> [] \<and> currentSceneIndex s = length vs
     \<and> awaiting s = NotWaiting \<and> videoEl s = EndedEl
     \<and> exportLog s = playedUpTo vs (length vs) @ [StopScheduled]"
  using assms by (auto simp: exportInv_def logOf_def Let_def)

lemma exportInv_Stopped:
  assumes "recorder s = Stopped"
  shows "exportInv vs s \<longleftrightarrow>
     validScenes s = vs \<and> vs \<noteq> [] \<and> currentSceneIndex s = length vs
     \<and> awaiting s = NotWaiting \<and> videoEl s = EndedEl
     \<and> exportLog s = playedUpTo vs (length vs) @ [StopScheduled, FileDownloaded]"
  using assms by (auto simp: exportInv_def logOf_def Let_def)


lemma react_LoadedMetadata_inv:
  assumes inv: "exportInv vs s" and r: "react ok (LoadedMetadata w h) s = Some s'"
  shows "exportInv vs s'"
proof -
  have aw: "awaiting s = AwaitMetadata"
    using r by (simp add: react_def split: if_splits)
  have rec: "recorder s = NotCreated"
    using inv aw by (cases "recorder s") (simp_all add: exportInv_def)
  from inv have st: "validScenes s = vs" "vs \<noteq> []" "videoEl s = NoSource"
    "currentSceneIndex s = 0" "exportLog s = []"
    unfolding exportInv_NotCreated[OF rec] using aw by simp_all
  show ?thesis
  proof (cases ok)
    case False
    then have s': "s' = s\<lparr>awaiting := NotWaiting, isExporting := False,
                            exportLog := exportLog s @ [AlertExportError]\<rparr>"
      using r aw by (simp add: react_def)
    have "recorder s' = NotCreated" by (simp add: s' rec)
    from exportInv_NotCreated[OF this] show ?thesis by (simp add: s' st)
  next
    case True
    then have s': "s' = playNext (s\<lparr>awaiting := NotWaiting, recorder := Recording,
                                      exportLog := exportLog s @ [RecorderStarted]\<rparr>)"
      using r aw by (simp add: react_def)
    have pos: "0 < length vs" using st(2) by simp
    have "recorder s' = Recording" using pos by (simp add: s' playNext_def st Let_def)
    from exportInv_Recording[OF this] show ?thesis
      using pos by (simp add: s' playNext_def st Let_def playedUpTo_def)
  qed
qed

lemma react_CanPlayThrough_inv:
  assumes inv: "exportInv vs s" and r: "react ok CanPlayThrough s = Some s'"
  shows "exportInv vs s'"
proof (cases "videoEl s = CanPlay \<or> videoEl s = Playing")
  case True
  then have "react ok CanPlayThrough s = Some s" by (auto simp: react_def)
  then have "s' = s" using r by simp
  then show ?thesis using inv by simp
next
  case False
  have "\<exists>u. videoEl s = LoadingSrc (Some u)"
  proof (cases "videoEl s")
    case (LoadingSrc src)
    then show ?thesis using r by (cases src) (simp_all add: react_def)
  qed (use r False in \<open>simp_all add: react_def\<close>)
  then obtain u where el: "videoEl s = LoadingSrc (Some u)" ..
  have rec: "recorder s = Recording"
    using inv el by (cases "recorder s") (simp_all add: exportInv_def)
  from inv have st: "validScenes s = vs" "vs \<noteq> []" "currentSceneIndex s < length vs"
    "awaiting s = AwaitCanPlay"
    "exportLog s = playedUpTo vs (currentSceneIndex s)
       @ [VideoLoaded (currentSceneIndex s) (selectedVideoUrl (vs ! currentSceneIndex s))]"
    unfolding exportInv_Recording[OF rec] using el by auto
  have s': "s' = s\<lparr>videoEl := CanPlay, awaiting := AwaitPlay,
                     exportLog := exportLog s @ [PlaybackStarted (currentSceneIndex s)]\<rparr>"
    using r el st(4) by (simp add: react_def)
  have "recorder s' = Recording" by (simp add: s' rec)
  from exportInv_Recording[OF this] show ?thesis by (simp add: s' st)
qed

lemma react_PlaySettled_inv:
  assumes inv: "exportInv vs s" and r: "react ok (PlaySettled b) s = Some s'"
  shows "exportInv vs s'"
proof -
  have aw: "awaiting s = AwaitPlay"
    using r by (simp add: react_def split: if_splits)
  have rec: "recorder s = Recording"
    using inv aw by (cases "recorder s") (auto simp: exportInv_def)
  from inv have st: "validScenes s = vs" "vs \<noteq> []" "currentSceneIndex s < length vs"
    "videoEl s = CanPlay"
    "exportLog s = playedUpTo vs (currentSceneIndex s)
       @ [VideoLoaded (currentSceneIndex s) (selectedVideoUrl (vs ! currentSceneIndex s)),
          PlaybackStarted (currentSceneIndex s)]"
    unfolding exportInv_Recording[OF rec] using aw by auto
  have s': "s' = s\<lparr>awaiting := NotWaiting, onendedSet := True,
                     drawing := (drawing s \<or> currentSceneIndex s = 0),
                     videoEl := (if b then Playing else videoEl s)\<rparr>"
    using r aw by (simp add: react_def)
  have "recorder s' = Recording" by (simp add: s' rec)
  from exportInv_Recording[OF this] show ?thesis by (simp add: s' st)
qed

lemma react_Ended_inv:
  assumes inv: "exportInv vs s" and r: "react ok Ended s = Some s'"
  shows "exportInv vs s'"
proof -
  have pl: "videoEl s = Playing"
    using r by (simp add: react_def split: if_splits)
  have rec: "recorder s = Recording"
    using inv pl by (cases "recorder s") (simp_all add: exportInv_def)
  from inv have st: "validScenes s = vs" "vs \<noteq> []" "currentSceneIndex s < length vs"
    "awaiting s = NotWaiting" "onendedSet s"
    "exportLog s = playedUpTo vs (currentSceneIndex s)
       @ [VideoLoaded (currentSceneIndex s) (selectedVideoUrl (vs ! currentSceneIndex s)),
          PlaybackStarted (currentSceneIndex s)]"
    unfolding exportInv_Recording[OF rec] using pl by auto
  let ?i = "currentSceneIndex s"
  have s': "s' = playNext (s\<lparr>videoEl := EndedEl, currentSceneIndex := Suc ?i,
                              exportLog := exportLog s @ [VideoEnded ?i]\<rparr>)"
    using r pl st(5) by (simp add: react_def)
  have log: "exportLog s @ [VideoEnded ?i] = playedUpTo vs (Suc ?i)"
    by (simp add: st(6) playedUpTo_Suc sceneEntries_def)
  have s'': "s' = playNext (s\<lparr>videoEl := EndedEl, currentSceneIndex := Suc ?i,
                               exportLog := playedUpTo vs (Suc ?i)\<rparr>)"
    unfolding s' log ..
  show ?thesis
  proof (cases "Suc ?i \<ge> length vs")
    case True
    then have last: "Suc ?i = length vs" using st(3) by simp
    have "recorder s' = StopPending" using last by (simp add: s'' playNext_def st(1))
    from exportInv_StopPending[OF this] show ?thesis
      using last by (simp add: s'' playNext_def st(1,2,4))
  next
    case False
    have "recorder s' = Recording" using False by (simp add: s'' playNext_def st(1) rec Let_def)
    from exportInv_Recording[OF this] show ?thesis
      using False by (simp add: s'' playNext_def st(1,2,4) Let_def)
  qed
qed

lemma react_StopTimer_inv:
  assumes inv: "exportInv vs s" and r: "react ok StopTimer s = Some s'"
  shows "exportInv vs s'"
proof -
  have rec: "recorder s = StopPending"
    using r by (simp add: react_def split: if_splits)
  from inv have st: "validScenes s = vs" "vs \<noteq> []" "currentSceneIndex s = length vs"
    "awaiting s = NotWaiting" "videoEl s = EndedEl"
    "exportLog s = playedUpTo vs (length vs) @ [StopScheduled]"
    unfolding exportInv_StopPending[OF rec] by simp_all
  have s': "s' = s\<lparr>recorder := Stopped, isExporting := False,
                     exportLog := exportLog s @ [FileDownloaded]\<rparr>"
    using r rec by (simp add: react_def)
  have "recorder s' = Stopped" by (simp add: s')
  from exportInv_Stopped[OF this] show ?thesis by (simp add: s' st)
qed

lemma react_inv:
  assumes "exportInv vs s" and "react ok ev s = Some s'"
  shows "exportInv vs s'"
proof (cases ev)
  case (LoadedMetadata w h)
  with assms show ?thesis by (simp add: react_LoadedMetadata_inv)
next
  case CanPlayThrough
  with assms show ?thesis by (simp add: react_CanPlayThrough_inv)
next
  case (PlaySettled b)
  with assms show ?thesis by (simp add: react_PlaySettled_inv)
next
  case Ended
  with assms show ?thesis by (simp add: react_Ended_inv)
next
  case StopTimer
  with assms show ?thesis by (simp add: react_StopTimer_inv)
qed

lemma runExport_inv:
  assumes "exportInv vs s" and "runExport ok evs s = Some s'"
  shows "exportInv vs s'"
  using assms
proof (induction evs arbitrary: s)
  case Nil
  then show ?case by simp
next
  case (Cons ev evs)
  then obtain s1 where s1: "react ok ev s = Some s1" "runExport ok evs s1 = Some s'"
    by (auto split: option.splits)
  from react_inv[OF Cons.prems(1) s1(1)] have "exportInv vs s1" .
  from Cons.IH[OF this s1(2)] show ?case .
qed


lemma exportInv_log:
  assumes "exportInv vs s"
  shows "exportLog s = [AlertExportError] \<and> recorder s = NotCreated
         \<or> prefix (exportLog s) (wholeExport vs)"
proof (cases "recorder s")
  case NotCreated
  from assms show ?thesis unfolding exportInv_NotCreated[OF NotCreated] using NotCreated by auto
next
  case Recording
  let ?i = "currentSceneIndex s"
  let ?u = "selectedVideoUrl (vs ! ?i)"
  from assms have i: "?i < length vs"
    and log: "exportLog s = playedUpTo vs ?i @ [VideoLoaded ?i ?u]
        \<or> exportLog s = playedUpTo vs ?i @ [VideoLoaded ?i ?u, PlaybackStarted ?i]"
    unfolding exportInv_Recording[OF Recording] by auto
  have "prefix (exportLog s) (playedUpTo vs ?i @ sceneEntries vs ?i)"
    using log by (auto simp: sceneEntries_def)
  also have "prefix \<dots> (playedUpTo vs (length vs))"
    using i by (rule playedUpTo_next_prefix)
  also have "prefix \<dots> (wholeExport vs)" by (simp add: wholeExport_def)
  finally show ?thesis by simp
next
  case StopPending
  from assms show ?thesis
    unfolding exportInv_StopPending[OF StopPending] by (simp add: wholeExport_def)
next
  case Stopped
  from assms show ?thesis
    unfolding exportInv_Stopped[OF Stopped] by (simp add: wholeExport_def)
qed

lemma exportInv_Stopped_log:
  assumes "exportInv vs s" "recorder s = Stopped"
  shows "exportLog s = wholeExport vs"
  using assms(1) unfolding exportInv_Stopped[OF assms(2)] by (simp add: wholeExport_def)

text \<open>One scene of a smooth export: the video can play, plays and ends.\<close>

lemma scene_round:
  assumes inv: "exportInv vs s" and rec: "recorder s = Recording"
    and aw: "awaiting s = AwaitCanPlay"
    and url: "selectedVideoUrl (vs ! currentSceneIndex s) \<noteq> None"
  shows "\<exists>s'. runExport True [CanPlayThrough, PlaySettled True, Ended] s = Some s'
           \<and> exportInv vs s' \<and> currentSceneIndex s' = Suc (currentSceneIndex s)
           \<and> isExporting s' = isExporting s
           \<and> (if Suc (currentSceneIndex s) < length vs
               then recorder s' = Recording \<and> awaiting s' = AwaitCanPlay
               else recorder s' = StopPending)"
proof -
  let ?i = "currentSceneIndex s"
  from inv have st: "validScenes s = vs" "?i < length vs"
    "videoEl s = LoadingSrc (selectedVideoUrl (vs ! ?i))"
    unfolding exportInv_Recording[OF rec] using aw by auto
  from url obtain u where u: "selectedVideoUrl (vs ! ?i) = Some u" by auto
  define s1 where "s1 = s\<lparr>videoEl := CanPlay, awaiting := AwaitPlay,
                          exportLog := exportLog s @ [PlaybackStarted ?i]\<rparr>"
  define s2 where "s2 = s1\<lparr>awaiting := NotWaiting, onendedSet := True,
                           drawing := (drawing s1 \<or> currentSceneIndex s1 = 0),
                           videoEl := Playing\<rparr>"
  define s3 where "s3 = playNext (s2\<lparr>videoEl := EndedEl, currentSceneIndex := Suc ?i,
                                    exportLog := exportLog s2 @ [VideoEnded ?i]\<rparr>)"
  have r1: "react True CanPlayThrough s = Some s1"
    by (simp add: react_def st(3) u aw s1_def)
  have r2: "react True (PlaySettled True) s1 = Some s2"
    by (simp add: react_def s1_def s2_def)
  have r3: "react True Ended s2 = Some s3"
    by (simp add: react_def s2_def s3_def s1_def)
  have run: "runExport True [CanPlayThrough, PlaySettled True, Ended] s = Some s3"
    by (simp add: r1 r2 r3)
  have inv3: "exportInv vs s3"
    using react_inv[OF react_inv[OF react_inv[OF inv r1] r2] r3] .
  have idx: "currentSceneIndex s3 = Suc ?i"
    by (simp add: s3_def playNext_def Let_def)
  have exp: "isExporting s3 = isExporting s"
    by (simp add: s3_def playNext_def Let_def s2_def s1_def)
  have fin: "if Suc ?i < length vs
             then recorder s3 = Recording \<and> awaiting s3 = AwaitCanPlay
             else recorder s3 = StopPending"
    by (simp add: s3_def playNext_def Let_def s2_def s1_def st(1) rec)
  from run inv3 idx exp fin show ?thesis by (intro exI[of _ s3]) simp
qed

lemma runExport_append:
  "runExport ok (evs @ evs') s =
     (case runExport ok evs s of None \<Rightarrow> None | Some s' \<Rightarrow> runExport ok evs' s')"
  by (induction evs arbitrary: s) (simp_all split: option.splits)

lemma remaining_scenes:
  assumes "\<forall>sc \<in> set vs. selectedVideoUrl sc \<noteq> None"
    and "exportInv vs s" and "recorder s = Recording" and "awaiting s = AwaitCanPlay"
    and "currentSceneIndex s + d = length vs" and "0 < d"
  shows "\<exists>s'. runExport True
               (concat (replicate d [CanPlayThrough, PlaySettled True, Ended]) @ [StopTimer]) s
             = Some s'
           \<and> exportInv vs s' \<and> recorder s' = Stopped \<and> \<not> isExporting s'"
  using assms(2-)
proof (induction d arbitrary: s)
  case 0
  then show ?case by simp
next
  case (Suc d)
  let ?i = "currentSceneIndex s"
  have i: "?i < length vs" using Suc.prems(4) by simp
  then have "selectedVideoUrl (vs ! ?i) \<noteq> None" using assms(1) by simp
  from scene_round[OF Suc.prems(1,2,3) this] obtain s3 where
    run: "runExport True [CanPlayThrough, PlaySettled True, Ended] s = Some s3"
    and inv3: "exportInv vs s3" and idx: "currentSceneIndex s3 = Suc ?i"
    and fin: "if Suc ?i < length vs
              then recorder s3 = Recording \<and> awaiting s3 = AwaitCanPlay
              else recorder s3 = StopPending"
    by blast
  have split: "concat (replicate (Suc d) [CanPlayThrough, PlaySettled True, Ended]) @ [StopTimer]
      = [CanPlayThrough, PlaySettled True, Ended]
        @ (concat (replicate d [CanPlayThrough, PlaySettled True, Ended]) @ [StopTimer])"
    by simp
  show ?case
  proof (cases d)
    case 0
    then have last: "\<not> Suc ?i < length vs" using Suc.prems(4) by simp
    with fin have rec: "recorder s3 = StopPending" by simp
    define s4 where "s4 = s3\<lparr>recorder := Stopped, isExporting := False,
                            exportLog := exportLog s3 @ [FileDownloaded]\<rparr>"
    have r4: "react True StopTimer s3 = Some s4"
      by (simp add: react_def rec s4_def)
    have "exportInv vs s4" using react_inv[OF inv3 r4] .
    moreover have "recorder s4 = Stopped" "\<not> isExporting s4" by (simp_all add: s4_def)
    moreover have "runExport True
        (concat (replicate (Suc d) [CanPlayThrough, PlaySettled True, Ended]) @ [StopTimer]) s
        = Some s4"
      unfolding split runExport_append run using 0 r4 by simp
    ultimately show ?thesis by (intro exI[of _ s4]) simp
  next
    case (Suc d')
    then have more: "Suc ?i < length vs" using Suc.prems(4) by simp
    with fin have rec: "recorder s3 = Recording" "awaiting s3 = AwaitCanPlay" by simp_all
    have "currentSceneIndex s3 + d = length vs" using idx Suc.prems(4) by simp
    moreover have "0 < d" using Suc by simp
    ultimately obtain s' where
      "runExport True (concat (replicate d [CanPlayThrough, PlaySettled True, Ended]) @ [StopTimer]) s3
         = Some s'" "exportInv vs s'" "recorder s' = Stopped" "\<not> isExporting s'"
      using Suc.IH[OF inv3 rec] by blast
    then show ?thesis
      unfolding split runExport_append run by (intro exI[of _ s']) simp
  qed
qed

lemma handleExportFullMovie_none:
  assumes "validScenesOf scenes = []"
  shows "exportLog (handleExportFullMovie scenes) = [AlertNoScenes]"
    and "recorder (handleExportFullMovie scenes) = NotCreated"
    and "\<not> isExporting (handleExportFullMovie scenes)"
    and "react ok ev (handleExportFullMovie scenes) = None"
  using assms
  by (simp_all add: handleExportFullMovie_def Let_def react_def split: export_event.splits)

lemma smooth_export:
  assumes "validScenesOf scenes \<noteq> []"
    and "\<forall>sc \<in> set (validScenesOf scenes). selectedVideoUrl sc \<noteq> None"
  shows "\<exists>s. runExport True (smoothEvents (length (validScenesOf scenes)))
               (handleExportFullMovie scenes) = Some s
           \<and> exportLog s = wholeExport (validScenesOf scenes)
           \<and> recorder s = Stopped \<and> \<not> isExporting s"
proof -
  let ?vs = "validScenesOf scenes"
  let ?s0 = "handleExportFullMovie scenes"
  have inv0: "exportInv ?vs ?s0" using assms(1) by (rule handleExportFullMovie_inv)
  define s1 where "s1 = playNext (?s0\<lparr>awaiting := NotWaiting, recorder := Recording,
                                       exportLog := exportLog ?s0 @ [RecorderStarted]\<rparr>)"
  have r0: "react True (LoadedMetadata 1920 1080) ?s0 = Some s1"
    using assms(1) by (simp add: react_def handleExportFullMovie_def Let_def s1_def)
  have inv1: "exportInv ?vs s1" using react_inv[OF inv0 r0] .
  have pos: "0 < length ?vs" using assms(1) by simp
  have f1: "recorder s1 = Recording" "awaiting s1 = AwaitCanPlay"
    "currentSceneIndex s1 + length ?vs = length ?vs"
    using pos by (simp_all add: s1_def playNext_def handleExportFullMovie_def Let_def)
  from remaining_scenes[OF assms(2) inv1 f1 pos] obtain s where
    s: "runExport True
          (concat (replicate (length ?vs) [CanPlayThrough, PlaySettled True, Ended]) @ [StopTimer])
          s1 = Some s"
      "exportInv ?vs s" "recorder s = Stopped" "\<not> isExporting s"
    by blast
  have "runExport True (smoothEvents (length ?vs)) ?s0 = Some s"
    by (simp add: smoothEvents_def r0 s(1))
  moreover have "exportLog s = wholeExport ?vs"
    using s(2,3) by (rule exportInv_Stopped_log)
  ultimately show ?thesis using s(3,4) by (intro exI[of _ s]) simp
qed

text \<open>
  Claim C9. The valid scenes are the scenes with at least one video and a selected
  index other than \<open>-1\<close>, in the order of the scene list. Without a valid scene the
  export shows an alert and does nothing more: no recorder, no download, and no event
  is awaited. With valid scenes, whatever events the page raises, the log of the export
  is either the alert of a failed setup, with no recorder created, or a beginning of
  the sequence: recorder started; for each valid scene in order its video loaded, its
  playback started, its video ended; stop scheduled; file downloaded. So the playback of
  a scene starts only after the video of the scene before it has ended. When every
  chosen video exists and loads, plays and ends, the log is that whole sequence.
\<close>

theorem export_plays_scenes_in_order:
  fixes scenes :: "Scene list"
  defines "vs \<equiv> validScenesOf scenes"
  shows "vs = filter (\<lambda>sc. length (videos sc) > 0 \<and> selectedVideoIndex sc \<noteq> - 1) scenes
       \<and> (vs = [] \<longrightarrow>
             exportLog (handleExportFullMovie scenes) = [AlertNoScenes]
           \<and> recorder (handleExportFullMovie scenes) = NotCreated
           \<and> \<not> isExporting (handleExportFullMovie scenes)
           \<and> react ok ev (handleExportFullMovie scenes) = None)
       \<and> (vs \<noteq> [] \<and> runExport ok evs (handleExportFullMovie scenes) = Some s \<longrightarrow>
             exportLog s = [AlertExportError] \<and> recorder s = NotCreated
           \<or> prefix (exportLog s) (wholeExport vs))
       \<and> (vs \<noteq> [] \<and> (\<forall>sc \<in> set vs. selectedVideoUrl sc \<noteq> None) \<longrightarrow>
             (\<exists>s'. runExport True (smoothEvents (length vs)) (handleExportFullMovie scenes) = Some s'
                \<and> exportLog s' = wholeExport vs \<and> recorder s' = Stopped \<and> \<not> isExporting s'))
       \<and> wholeExport vs
           = RecorderStarted
             # concat (map (\<lambda>i. [VideoLoaded i (selectedVideoUrl (vs ! i)), PlaybackStarted i,
                                VideoEnded i]) [0..<length vs])
             @ [StopScheduled, FileDownloaded]"
proof (intro conjI impI)
  show "vs = filter (\<lambda>sc. length (videos sc) > 0 \<and> selectedVideoIndex sc \<noteq> - 1) scenes"
    unfolding vs_def validScenesOf_def by (rule filter_cong) (simp_all add: qualifies_def)
next
  assume e: "vs = []"
  show "exportLog (handleExportFullMovie scenes) = [AlertNoScenes]"
    "recorder (handleExportFullMovie scenes) = NotCreated"
    "\<not> isExporting (handleExportFullMovie scenes)"
    "react ok ev (handleExportFullMovie scenes) = None"
    using handleExportFullMovie_none[OF e[unfolded vs_def]] by simp_all
next
  assume a: "vs \<noteq> [] \<and> runExport ok evs (handleExportFullMovie scenes) = Some s"
  then have "exportInv vs (handleExportFullMovie scenes)"
    unfolding vs_def using handleExportFullMovie_inv by blast
  from runExport_inv[OF this] a have "exportInv vs s" by blast
  then show "exportLog s = [AlertExportError] \<and> recorder s = NotCreated
           \<or> prefix (exportLog s) (wholeExport vs)"
    by (rule exportInv_log)
next
  assume "vs \<noteq> [] \<and> (\<forall>sc \<in> set vs. selectedVideoUrl sc \<noteq> None)"
  then show "\<exists>s'. runExport True (smoothEvents (length vs)) (handleExportFullMovie scenes) = Some s'
                \<and> exportLog s' = wholeExport vs \<and> recorder s' = Stopped \<and> \<not> isExporting s'"
    unfolding vs_def using smooth_export by blast
next
  show "wholeExport vs
           = RecorderStarted
             # concat (map (\<lambda>i. [VideoLoaded i (selectedVideoUrl (vs ! i)), PlaybackStarted i,
                                VideoEnded i]) [0..<length vs])
             @ [StopScheduled, FileDownloaded]"
    by (simp add: wholeExport_def playedUpTo_def sceneEntries_def[abs_def])
qed

lemma validScenesOf_threeScenes:
  "validScenesOf threeScenes = [clip [''a.mp4''] 0, clip [''b1.mp4'', ''b2.mp4''] 1]"
  by (simp add: validScenesOf_def threeScenes_def qualifies_def clip_def)

lemma selectedVideoUrl_clips:
  "selectedVideoUrl (clip [''a.mp4''] 0) = Some ''a.mp4''"
  "selectedVideoUrl (clip [''b1.mp4'', ''b2.mp4''] 1) = Some ''b2.mp4''"
  by (simp_all add: selectedVideoUrl_def clip_def)

theorem export_plays_scenes_in_order_witness:
  "validScenesOf threeScenes = [clip [''a.mp4''] 0, clip [''b1.mp4'', ''b2.mp4''] 1]
   \<and> map selectedVideoUrl (validScenesOf threeScenes) = [Some ''a.mp4'', Some ''b2.mp4'']
   \<and> (\<exists>s'. runExport True (smoothEvents 2) (handleExportFullMovie threeScenes) = Some s'
          \<and> exportLog s'
              = [RecorderStarted,
                 VideoLoaded 0 (Some ''a.mp4''), PlaybackStarted 0, VideoEnded 0,
                 VideoLoaded 1 (Some ''b2.mp4''), PlaybackStarted 1, VideoEnded 1,
                 StopScheduled, FileDownloaded])"
proof -
  let ?vs = "validScenesOf threeScenes"
  have ne: "?vs \<noteq> []" by (simp add: validScenesOf_threeScenes)
  have urls: "\<forall>sc \<in> set ?vs. selectedVideoUrl sc \<noteq> None"
    by (simp add: validScenesOf_threeScenes selectedVideoUrl_clips)
  have upt: "[0..<2] = [0, 1]" by (simp add: upt_rec)
  from export_plays_scenes_in_order[of threeScenes] ne urls
  obtain s' where
    run: "runExport True (smoothEvents (length ?vs)) (handleExportFullMovie threeScenes) = Some s'"
    and log: "exportLog s' = wholeExport ?vs"
    and whole: "wholeExport ?vs
           = RecorderStarted
             # concat (map (\<lambda>i. [VideoLoaded i (selectedVideoUrl (?vs ! i)), PlaybackStarted i,
                                VideoEnded i]) [0..<length ?vs])
             @ [StopScheduled, FileDownloaded]"
    by blast
  have "exportLog s'
              = [RecorderStarted,
                 VideoLoaded 0 (Some ''a.mp4''), PlaybackStarted 0, VideoEnded 0,
                 VideoLoaded 1 (Some ''b2.mp4''), PlaybackStarted 1, VideoEnded 1,
                 StopScheduled, FileDownloaded]"
    unfolding log whole by (simp add: validScenesOf_threeScenes upt selectedVideoUrl_clips)
  moreover have "runExport True (smoothEvents 2) (handleExportFullMovie threeScenes) = Some s'"
    using run by (simp add: validScenesOf_threeScenes numeral_2_eq_2)
  ultimately show ?thesis
    by (auto simp: validScenesOf_threeScenes selectedVideoUrl_clips)
qed

end
